theory Spec2Isabelle
  imports Main "HOL-Library.Multiset"
begin

section \<open>Data model\<close>

text \<open>
  The slot numbers, hours, minutes and block indices of the source are JavaScript
  numbers that only ever hold integers; they are modelled as \<open>int\<close>. Times and
  labels are strings.
\<close>

record TimeBlock =
  label :: string
  startSlot :: int
  endSlot :: int
  startTime :: string
  endTime :: string

record TimeSlot =
  slotNumber :: int
  startTime :: string
  endTime :: string

text \<open>
  A schedule slot is a catalog slot extended by \<open>isAvailable\<close>. The declared type of the
  field is \<open>boolean\<close>, but \<open>initializeSchedule\<close> reads it with \<open>?? true\<close>: the field may
  be absent. \<open>None\<close> stands for an absent (undefined or null) field.
\<close>

record Slot = TimeSlot +
  isAvailable :: "bool option"

datatype weekday = Monday | Tuesday | Wednesday | Thursday | Friday | Saturday | Sunday

record Schedule =
  day :: weekday
  slots :: "Slot list"

record DoctorFormData =
  name :: string
  email :: string
  avatar :: string
  specialization :: string
  experience :: int
  qualification :: string
  about :: string
  contactNumber :: string
  schedule :: "Schedule list"

section \<open>Strings and numbers of the host language\<close>

definition digitChar :: "nat \<Rightarrow> char" where
  "digitChar d =
     (if d = 0 then CHR ''0'' else if d = 1 then CHR ''1'' else if d = 2 then CHR ''2''
      else if d = 3 then CHR ''3'' else if d = 4 then CHR ''4'' else if d = 5 then CHR ''5''
      else if d = 6 then CHR ''6'' else if d = 7 then CHR ''7'' else if d = 8 then CHR ''8''
      else CHR ''9'')"

text \<open>\<open>n.toString()\<close> of a natural number: its decimal digits, no leading zero.\<close>

fun natToString :: "nat \<Rightarrow> string" where
  "natToString n =
     (if n < 10 then [digitChar n] else natToString (n div 10) @ [digitChar (n mod 10)])"

declare natToString.simps [simp del]

definition toString :: "int \<Rightarrow> string" where
  "toString i = (if i < 0 then CHR ''-'' # natToString (nat (- i)) else natToString (nat i))"

text \<open>\<open>s.padStart(n, c)\<close> with a one-character pad string.\<close>

definition padStart :: "nat \<Rightarrow> char \<Rightarrow> string \<Rightarrow> string" where
  "padStart n c s = replicate (n - length s) c @ s"

text \<open>\<open>s.split(c)\<close> with a one-character separator: never the empty array.\<close>

fun split :: "char \<Rightarrow> string \<Rightarrow> string list" where
  "split c [] = [[]]"
| "split c (x # xs) =
     (if x = c then [] # split c xs
      else (case split c xs of [] \<Rightarrow> [[x]] | p # ps \<Rightarrow> (x # p) # ps))"

definition digitVal :: "char \<Rightarrow> int option" where
  "digitVal ch =
     (if ch = CHR ''0'' then Some 0 else if ch = CHR ''1'' then Some 1
      else if ch = CHR ''2'' then Some 2 else if ch = CHR ''3'' then Some 3
      else if ch = CHR ''4'' then Some 4 else if ch = CHR ''5'' then Some 5
      else if ch = CHR ''6'' then Some 6 else if ch = CHR ''7'' then Some 7
      else if ch = CHR ''8'' then Some 8 else if ch = CHR ''9'' then Some 9
      else None)"

fun digitsValue :: "int \<Rightarrow> string \<Rightarrow> int option" where
  "digitsValue acc [] = Some acc"
| "digitsValue acc (ch # cs) =
     (case digitVal ch of None \<Rightarrow> None | Some d \<Rightarrow> digitsValue (10 * acc + d) cs)"

text \<open>
  \<open>Number(s)\<close> on the fragment the time strings live in: a string of at most 15 decimal
  digits denotes that integer exactly (the empty string denotes 0). Every other string
  (signs, fractions, exponents, blanks, text) is outside the fragment: the result is
  \<open>None\<close>, which says nothing about what the host language computes there.
\<close>

definition Number :: "string \<Rightarrow> int option" where
  "Number s = (if length s \<le> 15 then digitsValue 0 s else None)"

section \<open>Slot catalog (utils/timeSlots)\<close>

definition startHour :: int where "startHour = 9"
definition endHour :: int where "endHour = 21"
definition intervalMinutes :: int where "intervalMinutes = 15"

text \<open>The inner loop of \<open>generateTimeSlots\<close>: one hour, the minute stepping by the interval.\<close>

function minuteLoop :: "int \<Rightarrow> int \<Rightarrow> int \<Rightarrow> TimeSlot list \<Rightarrow> int \<times> TimeSlot list" where
  "minuteLoop hour minute slotNo acc =
     (if minute < 60 then
        (let start = padStart 2 CHR ''0'' (toString hour) @ '':''
                       @ padStart 2 CHR ''0'' (toString minute);
             endMinute0 = minute + intervalMinutes;
             endHour' = (if endMinute0 \<ge> 60 then hour + 1 else hour);
             endMinute = (if endMinute0 \<ge> 60 then endMinute0 - 60 else endMinute0);
             end = padStart 2 CHR ''0'' (toString endHour') @ '':''
                     @ padStart 2 CHR ''0'' (toString endMinute)
         in minuteLoop hour (minute + intervalMinutes) (slotNo + 1)
              (acc @ [\<lparr>slotNumber = slotNo, startTime = start, endTime = end\<rparr>]))
      else (slotNo, acc))"
  by pat_completeness auto
termination
  by (relation "measure (\<lambda>(hour, minute, slotNo, acc). nat (60 - minute))")
     (auto simp: intervalMinutes_def)

declare minuteLoop.simps [simp del]

text \<open>The outer loop: the hours from \<open>startHour\<close> up to, not including, \<open>endHour\<close>.\<close>

function hourLoop :: "int \<Rightarrow> int \<Rightarrow> TimeSlot list \<Rightarrow> TimeSlot list" where
  "hourLoop hour slotNo acc =
     (if hour < endHour then
        (case minuteLoop hour 0 slotNo acc of (slotNo', acc') \<Rightarrow> hourLoop (hour + 1) slotNo' acc')
      else acc)"
  by pat_completeness auto
termination
  by (relation "measure (\<lambda>(hour, slotNo, acc). nat (endHour - hour))") auto

declare hourLoop.simps [simp del]

definition generateTimeSlots :: "TimeSlot list" where
  "generateTimeSlots = hourLoop startHour 1 []"

definition FIXED_TIME_SLOTS :: "TimeSlot list" where
  "FIXED_TIME_SLOTS = generateTimeSlots"

definition TIME_BLOCKS :: "TimeBlock list" where
  "TIME_BLOCKS =
     [\<lparr>label = ''9:00 AM - 11:00 AM'', startSlot = 1, endSlot = 8,
        startTime = ''09:00'', endTime = ''11:00''\<rparr>,
      \<lparr>label = ''11:00 AM - 1:00 PM'', startSlot = 9, endSlot = 16,
        startTime = ''11:00'', endTime = ''13:00''\<rparr>,
      \<lparr>label = ''1:00 PM - 3:00 PM'', startSlot = 17, endSlot = 24,
        startTime = ''13:00'', endTime = ''15:00''\<rparr>,
      \<lparr>label = ''3:00 PM - 5:00 PM'', startSlot = 25, endSlot = 32,
        startTime = ''15:00'', endTime = ''17:00''\<rparr>,
      \<lparr>label = ''5:00 PM - 7:00 PM'', startSlot = 33, endSlot = 40,
        startTime = ''17:00'', endTime = ''19:00''\<rparr>,
      \<lparr>label = ''7:00 PM - 9:00 PM'', startSlot = 41, endSlot = 48,
        startTime = ''19:00'', endTime = ''21:00''\<rparr>]"

text \<open>
  \<open>getSlotsForBlock\<close>: the guard on the index, then the catalog filtered by the block's
  inclusive bounds. The index read is in range after the guard.
\<close>

definition getSlotsForBlock :: "int \<Rightarrow> TimeSlot list" where
  "getSlotsForBlock blockIndex =
     (if blockIndex < 0 \<or> blockIndex \<ge> int (length TIME_BLOCKS) then []
      else (let block = TIME_BLOCKS ! nat blockIndex
            in filter (\<lambda>slot. slotNumber slot \<ge> startSlot block \<and> slotNumber slot \<le> endSlot block)
                 FIXED_TIME_SLOTS))"

text \<open>\<open>find(...) || null\<close>: the first block whose range holds the number, or nothing.\<close>

definition getBlockForSlot :: "int \<Rightarrow> TimeBlock option" where
  "getBlockForSlot n = find (\<lambda>block. n \<ge> startSlot block \<and> n \<le> endSlot block) TIME_BLOCKS"

definition getSlotByNumber :: "int \<Rightarrow> TimeSlot option" where
  "getSlotByNumber n = find (\<lambda>slot. slotNumber slot = n) FIXED_TIME_SLOTS"

text \<open>
  \<open>formatTime12Hour\<close>. The destructuring takes the first two parts of the split; with
  no colon in the input \<open>minutes\<close> is undefined and \<open>minutes.toString()\<close> throws.
\<close>

datatype format_error = TypeError | OutsideNumberFragment

definition formatTime12Hour :: "string \<Rightarrow> format_error + string" where
  "formatTime12Hour time =
     (case split CHR '':'' time of
        hs # ms # rest \<Rightarrow>
          (case (Number hs, Number ms) of
             (Some hours, Some minutes) \<Rightarrow>
               (let period = (if hours \<ge> 12 then ''PM'' else ''AM'');
                    displayHours = (if hours = 0 then 12 else if hours > 12 then hours - 12 else hours)
                in Inr (toString displayHours @ '':'' @ padStart 2 CHR ''0'' (toString minutes)
                        @ '' '' @ period))
           | _ \<Rightarrow> Inl OutsideNumberFragment)
      | _ \<Rightarrow> Inl TypeError)"

section \<open>Schedule model (pages/DoctorProfile)\<close>

text \<open>Truthiness of an \<open>isAvailable\<close> field: only a present \<open>true\<close> is truthy.\<close>

definition truthy :: "bool option \<Rightarrow> bool" where
  "truthy v = (v = Some True)"

text \<open>\<open>v ?? true\<close>: the default applies to an absent field only.\<close>

definition orTrue :: "bool option \<Rightarrow> bool" where
  "orTrue v = (case v of None \<Rightarrow> True | Some b \<Rightarrow> b)"

definition days :: "weekday list" where
  "days = [Monday, Tuesday, Wednesday, Thursday, Friday, Saturday, Sunday]"

text \<open>The inner callback of \<open>initializeSchedule\<close>: a slot rebuilt field by field.\<close>

definition defaultSlot :: "Slot \<Rightarrow> Slot" where
  "defaultSlot slot =
     \<lparr>slotNumber = slotNumber slot, startTime = startTime slot, endTime = endTime slot,
      isAvailable = Some (orTrue (isAvailable slot))\<rparr>"

text \<open>The outer callback: the first entry of the input for this weekday, if any.\<close>

definition initializeDay :: "Schedule list \<Rightarrow> weekday \<Rightarrow> Schedule" where
  "initializeDay existingSchedule d =
     (case find (\<lambda>s. day s = d) existingSchedule of
        Some existingDay \<Rightarrow> \<lparr>day = d, slots = map defaultSlot (slots existingDay)\<rparr>
      | None \<Rightarrow> \<lparr>day = d, slots = []\<rparr>)"

definition initializeSchedule :: "Schedule list \<Rightarrow> Schedule list" where
  "initializeSchedule existingSchedule = map (initializeDay existingSchedule) days"

text \<open>\<open>xs.findIndex(p)\<close>: the index of the first element that satisfies \<open>p\<close>, or -1.\<close>

fun findIndex :: "('a \<Rightarrow> bool) \<Rightarrow> 'a list \<Rightarrow> int" where
  "findIndex p [] = - 1"
| "findIndex p (x # xs) =
     (if p x then 0 else (let i = findIndex p xs in if i < 0 then - 1 else i + 1))"

text \<open>
  The callback that \<open>toggleSlotAvailability\<close> maps over the schedule. The sort of the
  source compares slot numbers by subtraction; the host language's sort is stable, as
  \<open>sort_key\<close> is.
\<close>

definition toggleEntry :: "weekday \<Rightarrow> int \<Rightarrow> Schedule \<Rightarrow> Schedule" where
  "toggleEntry d n scheduleDay =
     (if day scheduleDay = d then
        (let existingSlotIndex = findIndex (\<lambda>s. slotNumber s = n) (slots scheduleDay)
         in if existingSlotIndex \<ge> 0 then
              (let updatedSlots = slots scheduleDay;
                   old = updatedSlots ! nat existingSlotIndex
               in scheduleDay\<lparr>slots := updatedSlots[nat existingSlotIndex :=
                                  old\<lparr>isAvailable := Some (\<not> truthy (isAvailable old))\<rparr>]\<rparr>)
            else
              (case find (\<lambda>s. slotNumber s = n) FIXED_TIME_SLOTS of
                 Some fixedSlot \<Rightarrow>
                   scheduleDay\<lparr>slots := sort_key slotNumber
                     (slots scheduleDay @
                       [\<lparr>slotNumber = slotNumber fixedSlot, startTime = startTime fixedSlot,
                         endTime = endTime fixedSlot, isAvailable = Some True\<rparr>])\<rparr>
               | None \<Rightarrow> scheduleDay))
      else scheduleDay)"

definition updatedSchedule :: "Schedule list \<Rightarrow> weekday \<Rightarrow> int \<Rightarrow> Schedule list" where
  "updatedSchedule sched d n = map (toggleEntry d n) sched"

text \<open>The form state as the component first holds it: empty fields and no schedule.\<close>

definition initialFormData :: DoctorFormData where
  "initialFormData =
     \<lparr>name = [], email = [], avatar = [], specialization = [], experience = 0,
      qualification = [], about = [], contactNumber = [], schedule = []\<rparr>"

text \<open>The form state is nullable; without it the handlers return at once.\<close>

definition toggleSlotAvailability ::
  "DoctorFormData option \<Rightarrow> weekday \<Rightarrow> int \<Rightarrow> DoctorFormData option" where
  "toggleSlotAvailability formData d n =
     (case formData of
        None \<Rightarrow> None
      | Some fd \<Rightarrow> Some (fd\<lparr>schedule := updatedSchedule (schedule fd) d n\<rparr>))"

definition getSelectedSlotsForDay :: "DoctorFormData option \<Rightarrow> weekday \<Rightarrow> int list" where
  "getSelectedSlotsForDay formData d =
     (case formData of
        None \<Rightarrow> []
      | Some fd \<Rightarrow>
          (case find (\<lambda>s. day s = d) (schedule fd) of
             None \<Rightarrow> []
           | Some scheduleDay \<Rightarrow>
               map slotNumber (filter (\<lambda>slot. truthy (isAvailable slot)) (slots scheduleDay))))"

text \<open>The \<open>cleanedSchedule\<close> computation of \<open>handleSubmit\<close>.\<close>

definition cleanedSchedule :: "Schedule list \<Rightarrow> Schedule list" where
  "cleanedSchedule sched =
     filter (\<lambda>d. length (slots d) > 0)
       (map (\<lambda>d. d\<lparr>slots := filter (\<lambda>slot. truthy (isAvailable slot)) (slots d)\<rparr>) sched)"

text \<open>The clock reading of an \<open>HH:MM\<close> string, in minutes since midnight.\<close>

definition clockMinutes :: "string \<Rightarrow> int option" where
  "clockMinutes t =
     (case split CHR '':'' t of
        [hs, ms] \<Rightarrow>
          (case (Number hs, Number ms) of
             (Some h, Some m) \<Rightarrow> Some (60 * h + m)
           | _ \<Rightarrow> None)
      | _ \<Rightarrow> None)"

section \<open>The slot catalog as generated\<close>

lemma catalog_numbers: "map slotNumber FIXED_TIME_SLOTS = [1..48]"
  by code_simp

lemma catalog_length: "length FIXED_TIME_SLOTS = 48"
  by code_simp

lemma catalog_first_last:
  "TimeSlot.startTime (FIXED_TIME_SLOTS ! 0) = ''09:00''"
  "TimeSlot.endTime (FIXED_TIME_SLOTS ! 47) = ''21:00''"
  by code_simp+

lemma catalog_adjacent:
  "map TimeSlot.endTime (butlast FIXED_TIME_SLOTS) = map TimeSlot.startTime (tl FIXED_TIME_SLOTS)"
  by code_simp

lemma catalog_quarter_hours:
  "list_all (\<lambda>s. case (clockMinutes (TimeSlot.startTime s), clockMinutes (TimeSlot.endTime s)) of
        (Some a, Some b) \<Rightarrow> b = a + 15 \<and> 0 \<le> a \<and> b < 24 * 60 | _ \<Rightarrow> False) FIXED_TIME_SLOTS"
  by code_simp

text \<open>
  C1. The generated catalog holds exactly 48 slots, numbered 1 to 48 in ascending order;
  slot 1 starts at 09:00 and slot 48 ends at 21:00; each slot ends where the next one
  starts; and every slot ends 15 minutes after it starts, on the same day (the slot
  numbered \<open>n\<close> is the entry at index \<open>n - 1\<close>).
\<close>

theorem catalog_complete_contiguous:
  "length FIXED_TIME_SLOTS = 48
   \<and> map slotNumber FIXED_TIME_SLOTS = [1..48]
   \<and> TimeSlot.startTime (FIXED_TIME_SLOTS ! 0) = ''09:00''
   \<and> TimeSlot.endTime (FIXED_TIME_SLOTS ! 47) = ''21:00''
   \<and> (\<forall>n::nat. 1 \<le> n \<and> n \<le> 47 \<longrightarrow>
         TimeSlot.endTime (FIXED_TIME_SLOTS ! (n - 1)) = TimeSlot.startTime (FIXED_TIME_SLOTS ! n))
   \<and> (\<forall>s \<in> set FIXED_TIME_SLOTS. \<exists>m.
         clockMinutes (TimeSlot.startTime s) = Some m
         \<and> clockMinutes (TimeSlot.endTime s) = Some (m + 15)
         \<and> 0 \<le> m \<and> m + 15 < 24 * 60)"
proof -
  have adj: "TimeSlot.endTime (FIXED_TIME_SLOTS ! (n - 1)) = TimeSlot.startTime (FIXED_TIME_SLOTS ! n)"
    if "1 \<le> n \<and> n \<le> 47" for n :: nat
  proof -
    have lt: "n - 1 < length (butlast FIXED_TIME_SLOTS)" "n - 1 < length (tl FIXED_TIME_SLOTS)"
      using that by (auto simp: catalog_length)
    have "map TimeSlot.endTime (butlast FIXED_TIME_SLOTS) ! (n - 1)
            = map TimeSlot.startTime (tl FIXED_TIME_SLOTS) ! (n - 1)"
      by (simp only: catalog_adjacent)
    then have "TimeSlot.endTime (butlast FIXED_TIME_SLOTS ! (n - 1))
                 = TimeSlot.startTime (tl FIXED_TIME_SLOTS ! (n - 1))"
      using lt by (simp only: nth_map)
    then show ?thesis
      using that lt by (simp add: nth_butlast nth_tl)
  qed
  have quarter: "\<exists>m. clockMinutes (TimeSlot.startTime s) = Some m
         \<and> clockMinutes (TimeSlot.endTime s) = Some (m + 15) \<and> 0 \<le> m \<and> m + 15 < 24 * 60"
    if "s \<in> set FIXED_TIME_SLOTS" for s
  proof -
    from catalog_quarter_hours that
    have c: "(case (clockMinutes (TimeSlot.startTime s), clockMinutes (TimeSlot.endTime s)) of
        (Some a, Some b) \<Rightarrow> b = a + 15 \<and> 0 \<le> a \<and> b < 24 * 60 | _ \<Rightarrow> False)"
      by (simp only: list_all_iff)
    then obtain a b where "clockMinutes (TimeSlot.startTime s) = Some a"
      "clockMinutes (TimeSlot.endTime s) = Some b"
      by (cases "clockMinutes (TimeSlot.startTime s)"; cases "clockMinutes (TimeSlot.endTime s)") simp_all
    with c show ?thesis by simp
  qed
  show ?thesis
    using adj quarter by (simp add: catalog_length catalog_numbers catalog_first_last)
qed

theorem catalog_complete_contiguous_witness:
  "(1::nat) \<le> 4 \<and> (4::nat) \<le> 47
   \<and> TimeSlot.endTime (FIXED_TIME_SLOTS ! (4 - 1)) = ''10:00''
   \<and> TimeSlot.startTime (FIXED_TIME_SLOTS ! 4) = ''10:00''
   \<and> FIXED_TIME_SLOTS ! 3 \<in> set FIXED_TIME_SLOTS
   \<and> clockMinutes (TimeSlot.startTime (FIXED_TIME_SLOTS ! 3)) = Some 585
   \<and> clockMinutes (TimeSlot.endTime (FIXED_TIME_SLOTS ! 3)) = Some (585 + 15)"
proof -
  have mem: "FIXED_TIME_SLOTS ! 3 \<in> set FIXED_TIME_SLOTS"
    by (simp add: catalog_length)
  have e: "TimeSlot.endTime (FIXED_TIME_SLOTS ! (4 - 1)) = ''10:00''"
    by code_simp
  have s: "clockMinutes (TimeSlot.startTime (FIXED_TIME_SLOTS ! 3)) = Some 585"
    by code_simp
  have adj: "\<forall>n::nat. 1 \<le> n \<and> n \<le> 47 \<longrightarrow>
         TimeSlot.endTime (FIXED_TIME_SLOTS ! (n - 1)) = TimeSlot.startTime (FIXED_TIME_SLOTS ! n)"
    and quarter: "\<forall>s \<in> set FIXED_TIME_SLOTS. \<exists>m.
         clockMinutes (TimeSlot.startTime s) = Some m
         \<and> clockMinutes (TimeSlot.endTime s) = Some (m + 15)
         \<and> 0 \<le> m \<and> m + 15 < 24 * 60"
    using catalog_complete_contiguous by blast+
  from adj have a4: "TimeSlot.endTime (FIXED_TIME_SLOTS ! (4 - 1)) = TimeSlot.startTime (FIXED_TIME_SLOTS ! 4)"
    by (rule allE [where x = 4]) simp
  from quarter mem obtain m where
    "clockMinutes (TimeSlot.startTime (FIXED_TIME_SLOTS ! 3)) = Some m"
    "clockMinutes (TimeSlot.endTime (FIXED_TIME_SLOTS ! 3)) = Some (m + 15)"
    by blast
  with e s a4 mem show ?thesis by simp
qed

section \<open>Lookups and blocks\<close>

lemma find_in_upto:
  "map f xs = [a..k] \<Longrightarrow>
   find (\<lambda>s. f s = n) xs = (if a \<le> n \<and> n \<le> k then Some (xs ! nat (n - a)) else None)"
proof (induction xs arbitrary: a)
  case Nil
  then show ?case by (cases "a \<le> k") (simp_all add: upto_rec1)
next
  case (Cons x xs)
  from Cons.prems have ak: "a \<le> k"
    by (cases "a \<le> k") simp_all
  with Cons.prems have fx: "f x = a" and rest: "map f xs = [a + 1..k]"
    by (simp_all add: upto_rec1)
  show ?case
  proof (cases "n = a")
    case True
    with fx ak show ?thesis by simp
  next
    case False
    have "nat (n - a) = Suc (nat (n - (a + 1)))" if "a \<le> n"
      using that False by simp
    with False fx Cons.IH [OF rest] show ?thesis by auto
  qed
qed

lemma getSlotByNumber_eq:
  "getSlotByNumber n = (if 1 \<le> n \<and> n \<le> 48 then Some (FIXED_TIME_SLOTS ! nat (n - 1)) else None)"
  unfolding getSlotByNumber_def by (rule find_in_upto [OF catalog_numbers])

lemma catalog_nth_number:
  assumes "1 \<le> n" "n \<le> 48"
  shows "slotNumber (FIXED_TIME_SLOTS ! nat (n - 1)) = n"
proof -
  have lt: "nat (n - 1) < length FIXED_TIME_SLOTS"
    using assms by (simp add: catalog_length)
  then have "slotNumber (FIXED_TIME_SLOTS ! nat (n - 1)) = map slotNumber FIXED_TIME_SLOTS ! nat (n - 1)"
    by simp
  also have "\<dots> = [1..48] ! nat (n - 1)"
    by (simp only: catalog_numbers)
  also have "\<dots> = n"
    using assms by simp
  finally show ?thesis .
qed

lemma catalog_numbers_inj: "inj_on slotNumber (set FIXED_TIME_SLOTS)"
proof -
  have "distinct (map slotNumber FIXED_TIME_SLOTS)"
    by (simp only: catalog_numbers distinct_upto)
  then show ?thesis by (simp add: distinct_map)
qed

lemma block_ranges:
  "map (\<lambda>b. (startSlot b, endSlot b)) TIME_BLOCKS = [(1, 8), (9, 16), (17, 24), (25, 32), (33, 40), (41, 48)]"
  by (simp add: TIME_BLOCKS_def)

lemma block_labels: "distinct (map (\<lambda>b. (startSlot b, endSlot b)) TIME_BLOCKS)"
  by (simp add: block_ranges)

lemma blocks_cover: "(\<exists>b \<in> set TIME_BLOCKS. startSlot b \<le> n \<and> n \<le> endSlot b) \<longleftrightarrow> 1 \<le> n \<and> n \<le> 48"
proof -
  have "(\<exists>b \<in> set TIME_BLOCKS. startSlot b \<le> n \<and> n \<le> endSlot b)
        \<longleftrightarrow> (\<exists>p \<in> set (map (\<lambda>b. (startSlot b, endSlot b)) TIME_BLOCKS). fst p \<le> n \<and> n \<le> snd p)"
    by (simp add: Bex_def image_iff) blast
  also have "\<dots> \<longleftrightarrow> 1 \<le> n \<and> n \<le> 48"
    unfolding block_ranges by simp arith
  finally show ?thesis .
qed

lemma blocks_disjoint:
  assumes "b \<in> set TIME_BLOCKS" "b' \<in> set TIME_BLOCKS"
    and "startSlot b \<le> n" "n \<le> endSlot b" "startSlot b' \<le> n" "n \<le> endSlot b'"
  shows "b' = b"
proof -
  let ?r = "\<lambda>b. (startSlot b, endSlot b)"
  have "?r b \<in> set (map ?r TIME_BLOCKS)" "?r b' \<in> set (map ?r TIME_BLOCKS)"
    using assms(1,2) by simp_all
  then have "?r b = ?r b'"
    unfolding block_ranges using assms(3-6) by simp arith
  moreover have "inj_on ?r (set TIME_BLOCKS)"
    using block_labels by (simp only: distinct_map)
  ultimately show ?thesis
    using assms(1,2) by (auto dest: inj_onD)
qed


text \<open>
  C7. The lookups are total and signal absence by a value. \<open>getSlotByNumber n\<close> is the
  catalog slot with number \<open>n\<close>, the only one, when \<open>n\<close> is between 1 and 48, and
  nothing otherwise. \<open>getBlockForSlot k\<close> is the block (the only one) whose inclusive
  range holds \<open>k\<close> when there is one, and nothing otherwise. Neither function has an
  error branch.
\<close>

theorem lookups_signal_absence:
  "getSlotByNumber n = (if 1 \<le> n \<and> n \<le> 48 then Some (FIXED_TIME_SLOTS ! nat (n - 1)) else None)
   \<and> (1 \<le> n \<and> n \<le> 48 \<longrightarrow>
        FIXED_TIME_SLOTS ! nat (n - 1) \<in> set FIXED_TIME_SLOTS
        \<and> slotNumber (FIXED_TIME_SLOTS ! nat (n - 1)) = n
        \<and> (\<forall>s \<in> set FIXED_TIME_SLOTS. slotNumber s = n \<longrightarrow> s = FIXED_TIME_SLOTS ! nat (n - 1)))
   \<and> ((\<exists>b \<in> set TIME_BLOCKS. startSlot b \<le> k \<and> k \<le> endSlot b) \<longrightarrow>
        (\<exists>b \<in> set TIME_BLOCKS. getBlockForSlot k = Some b \<and> startSlot b \<le> k \<and> k \<le> endSlot b
           \<and> (\<forall>b' \<in> set TIME_BLOCKS. startSlot b' \<le> k \<and> k \<le> endSlot b' \<longrightarrow> b' = b)))
   \<and> (\<not> (\<exists>b \<in> set TIME_BLOCKS. startSlot b \<le> k \<and> k \<le> endSlot b) \<longrightarrow> getBlockForSlot k = None)"
proof -
  have slot: "FIXED_TIME_SLOTS ! nat (n - 1) \<in> set FIXED_TIME_SLOTS
        \<and> slotNumber (FIXED_TIME_SLOTS ! nat (n - 1)) = n
        \<and> (\<forall>s \<in> set FIXED_TIME_SLOTS. slotNumber s = n \<longrightarrow> s = FIXED_TIME_SLOTS ! nat (n - 1))"
    if n: "1 \<le> n \<and> n \<le> 48"
  proof -
    have mem: "FIXED_TIME_SLOTS ! nat (n - 1) \<in> set FIXED_TIME_SLOTS"
    proof (rule nth_mem)
      show "nat (n - 1) < length FIXED_TIME_SLOTS"
        using n unfolding catalog_length by arith
    qed
    have num: "slotNumber (FIXED_TIME_SLOTS ! nat (n - 1)) = n"
      using n by (simp add: catalog_nth_number)
    have "s = FIXED_TIME_SLOTS ! nat (n - 1)" if "s \<in> set FIXED_TIME_SLOTS" "slotNumber s = n" for s
      using catalog_numbers_inj mem num that by (auto dest: inj_onD)
    with mem num show ?thesis by blast
  qed
  have found: "\<exists>b \<in> set TIME_BLOCKS. getBlockForSlot k = Some b \<and> startSlot b \<le> k \<and> k \<le> endSlot b
           \<and> (\<forall>b' \<in> set TIME_BLOCKS. startSlot b' \<le> k \<and> k \<le> endSlot b' \<longrightarrow> b' = b)"
    if "\<exists>b \<in> set TIME_BLOCKS. startSlot b \<le> k \<and> k \<le> endSlot b"
  proof -
    from that obtain b where "getBlockForSlot k = Some b"
      unfolding getBlockForSlot_def by (cases "find (\<lambda>block. startSlot block \<le> k \<and> k \<le> endSlot block) TIME_BLOCKS") (auto simp: find_None_iff)
    moreover from this have "b \<in> set TIME_BLOCKS" "startSlot b \<le> k" "k \<le> endSlot b"
      unfolding getBlockForSlot_def by (auto simp: find_Some_iff)
    ultimately show ?thesis
      using blocks_disjoint by blast
  qed
  have missing: "getBlockForSlot k = None"
    if "\<not> (\<exists>b \<in> set TIME_BLOCKS. startSlot b \<le> k \<and> k \<le> endSlot b)"
    using that unfolding getBlockForSlot_def by (auto simp: find_None_iff)
  show ?thesis
    using getSlotByNumber_eq [of n] slot found missing by blast
qed


theorem lookups_signal_absence_witness:
  "(1::int) \<le> 5 \<and> (5::int) \<le> 48
   \<and> getSlotByNumber 5 = Some (FIXED_TIME_SLOTS ! 4)
   \<and> slotNumber (FIXED_TIME_SLOTS ! 4) = 5
   \<and> (\<exists>b \<in> set TIME_BLOCKS. startSlot b \<le> 20 \<and> 20 \<le> endSlot b)
   \<and> (\<exists>b \<in> set TIME_BLOCKS. getBlockForSlot 20 = Some b \<and> startSlot b \<le> 20 \<and> 20 \<le> endSlot b)
   \<and> \<not> (\<exists>b \<in> set TIME_BLOCKS. startSlot b \<le> 0 \<and> 0 \<le> endSlot b)
   \<and> getBlockForSlot 0 = None"
proof -
  have h5: "(1::int) \<le> 5 \<and> (5::int) \<le> 48"
    by simp
  have h20: "\<exists>b \<in> set TIME_BLOCKS. startSlot b \<le> 20 \<and> 20 \<le> endSlot b"
    by (simp add: blocks_cover)
  have h0: "\<not> (\<exists>b \<in> set TIME_BLOCKS. startSlot b \<le> 0 \<and> 0 \<le> endSlot b)"
    by (simp add: blocks_cover)
  have n4: "nat (5 - 1) = 4"
    by simp
  from lookups_signal_absence [of 5 20] h5
  have "getSlotByNumber 5 = Some (FIXED_TIME_SLOTS ! nat (5 - 1))"
    and "slotNumber (FIXED_TIME_SLOTS ! nat (5 - 1)) = 5"
    by simp_all
  then have a: "getSlotByNumber 5 = Some (FIXED_TIME_SLOTS ! 4)"
    and b: "slotNumber (FIXED_TIME_SLOTS ! 4) = 5"
    by (simp_all only: n4)
  from lookups_signal_absence [of 5 20] h20
  have c: "\<exists>b \<in> set TIME_BLOCKS. getBlockForSlot 20 = Some b \<and> startSlot b \<le> 20 \<and> 20 \<le> endSlot b"
    by blast
  from lookups_signal_absence [of 5 0] h0
  have d: "getBlockForSlot 0 = None"
    by blast
  from h5 a b h20 c h0 d show ?thesis
    by blast
qed

lemma block_count:
  "length (filter (\<lambda>b. startSlot b \<le> n \<and> n \<le> endSlot b) TIME_BLOCKS) = (if 1 \<le> n \<and> n \<le> 48 then 1 else 0)"
  by (simp add: TIME_BLOCKS_def)

lemma getSlotsForBlock_numbers:
  "list_all (\<lambda>i. map slotNumber (getSlotsForBlock i) = [8 * i + 1..8 * i + 8]) [0, 1, 2, 3, 4, 5]"
  by code_simp

text \<open>
  C4. The six blocks partition the slot numbers 1 to 48: a number in that range lies
  in the range of exactly one block and a number outside of it in none.
  \<open>getSlotsForBlock i\<close> for an index from 0 to 5 is the catalog filtered by the bounds
  of block \<open>i\<close>: eight slots, numbered \<open>8 i + 1\<close> to \<open>8 i + 8\<close> in ascending
  order. For every other index, -1 and 6 among them, it is empty.
\<close>

theorem block_partition:
  "length (filter (\<lambda>b. startSlot b \<le> n \<and> n \<le> endSlot b) TIME_BLOCKS)
     = (if 1 \<le> n \<and> n \<le> 48 then 1 else 0)
   \<and> (0 \<le> i \<and> i \<le> 5 \<longrightarrow>
        length (getSlotsForBlock i) = 8
        \<and> getSlotsForBlock i
            = filter (\<lambda>s. startSlot (TIME_BLOCKS ! nat i) \<le> slotNumber s
                          \<and> slotNumber s \<le> endSlot (TIME_BLOCKS ! nat i)) FIXED_TIME_SLOTS
        \<and> map slotNumber (getSlotsForBlock i) = [8 * i + 1..8 * i + 8])
   \<and> (i < 0 \<or> 5 < i \<longrightarrow> getSlotsForBlock i = [])
   \<and> getSlotsForBlock (- 1) = [] \<and> getSlotsForBlock 6 = []"
proof -
  have len: "length TIME_BLOCKS = 6"
    by (simp add: TIME_BLOCKS_def)
  have inside: "length (getSlotsForBlock i) = 8
        \<and> getSlotsForBlock i
            = filter (\<lambda>s. startSlot (TIME_BLOCKS ! nat i) \<le> slotNumber s
                          \<and> slotNumber s \<le> endSlot (TIME_BLOCKS ! nat i)) FIXED_TIME_SLOTS
        \<and> map slotNumber (getSlotsForBlock i) = [8 * i + 1..8 * i + 8]"
    if i: "0 \<le> i \<and> i \<le> 5"
  proof -
    from i have "i \<in> set [0, 1, 2, 3, 4, 5]"
      by simp arith
    with getSlotsForBlock_numbers
    have nums: "map slotNumber (getSlotsForBlock i) = [8 * i + 1..8 * i + 8]"
      by (simp only: list_all_iff)
    have "length (map slotNumber (getSlotsForBlock i)) = 8"
      by (simp only: nums) simp
    then have "length (getSlotsForBlock i) = 8"
      by simp
    moreover have "getSlotsForBlock i
            = filter (\<lambda>s. startSlot (TIME_BLOCKS ! nat i) \<le> slotNumber s
                          \<and> slotNumber s \<le> endSlot (TIME_BLOCKS ! nat i)) FIXED_TIME_SLOTS"
      using i by (simp add: getSlotsForBlock_def len Let_def)
    ultimately show ?thesis
      using nums by simp
  qed
  have outside: "getSlotsForBlock i = []" if "i < 0 \<or> 5 < i"
    using that by (auto simp: getSlotsForBlock_def len)
  have "getSlotsForBlock (- 1) = []" "getSlotsForBlock 6 = []"
    by (simp_all add: getSlotsForBlock_def len)
  with block_count [of n] inside outside show ?thesis
    by blast
qed

theorem block_partition_witness:
  "(0::int) \<le> 2 \<and> (2::int) \<le> 5
   \<and> map slotNumber (getSlotsForBlock 2) = [17, 18, 19, 20, 21, 22, 23, 24]
   \<and> length (getSlotsForBlock 2) = 8
   \<and> ((7::int) < 0 \<or> (5::int) < 7) \<and> getSlotsForBlock 7 = []"
proof -
  have h2: "(0::int) \<le> 2 \<and> (2::int) \<le> 5" and h7: "(7::int) < 0 \<or> (5::int) < 7"
    by simp_all
  from block_partition [of 0 2] h2
  have "map slotNumber (getSlotsForBlock 2) = [8 * 2 + 1..8 * 2 + 8]"
    and l: "length (getSlotsForBlock 2) = 8"
    by blast+
  moreover have "[8 * 2 + 1..8 * 2 + 8] = [17, 18, 19, 20, 21, 22, 23, 24 :: int]"
    by code_simp
  ultimately have m: "map slotNumber (getSlotsForBlock 2) = [17, 18, 19, 20, 21, 22, 23, 24]"
    by (simp only:)
  from block_partition [of 0 7] h7 have "getSlotsForBlock 7 = []"
    by blast
  with h2 h7 m l show ?thesis by blast
qed

section \<open>Display of times\<close>

lemma two_digit_table:
  "list_all (\<lambda>m.
      Number [digitChar (m div 10), digitChar (m mod 10)] = Some (int m)
      \<and> digitChar (m div 10) \<noteq> CHR '':'' \<and> digitChar (m mod 10) \<noteq> CHR '':''
      \<and> padStart 2 CHR ''0'' (toString (int m)) = [digitChar (m div 10), digitChar (m mod 10)])
     [0..<60]"
  by code_simp

lemma two_digit:
  assumes "m < 60"
  shows "Number [digitChar (m div 10), digitChar (m mod 10)] = Some (int m)"
    and "digitChar (m div 10) \<noteq> CHR '':''" and "digitChar (m mod 10) \<noteq> CHR '':''"
    and "padStart 2 CHR ''0'' (toString (int m)) = [digitChar (m div 10), digitChar (m mod 10)]"
proof -
  from assms have "m \<in> set [0..<60]"
    by simp
  with two_digit_table
  have "Number [digitChar (m div 10), digitChar (m mod 10)] = Some (int m)
      \<and> digitChar (m div 10) \<noteq> CHR '':'' \<and> digitChar (m mod 10) \<noteq> CHR '':''
      \<and> padStart 2 CHR ''0'' (toString (int m)) = [digitChar (m div 10), digitChar (m mod 10)]"
    unfolding list_all_iff by blast
  then show "Number [digitChar (m div 10), digitChar (m mod 10)] = Some (int m)"
    and "digitChar (m div 10) \<noteq> CHR '':''" and "digitChar (m mod 10) \<noteq> CHR '':''"
    and "padStart 2 CHR ''0'' (toString (int m)) = [digitChar (m div 10), digitChar (m mod 10)]"
    by blast+
qed

lemma split_clock:
  "a \<noteq> CHR '':'' \<Longrightarrow> b \<noteq> CHR '':'' \<Longrightarrow> c \<noteq> CHR '':'' \<Longrightarrow> d \<noteq> CHR '':''
   \<Longrightarrow> split CHR '':'' ([a, b] @ '':'' @ [c, d]) = [[a, b], [c, d]]"
  by simp

text \<open>
  C6. On a 24-hour string \<open>HH:MM\<close> (two digits, a colon, two digits; hour below 24,
  minute below 60) \<open>formatTime12Hour\<close> returns the hour as 12 for hour 0, less 12 for
  hours 13 to 23 and unchanged otherwise (so 12 stays 12), then the same two minute
  digits, then AM below hour 12 and PM from hour 12 on; and the five fixed points of
  the specification hold.
\<close>

theorem formatTime12Hour_policy:
  "(h < 24 \<and> m < 60 \<longrightarrow>
      formatTime12Hour ([digitChar (h div 10), digitChar (h mod 10)] @ '':''
                          @ [digitChar (m div 10), digitChar (m mod 10)])
        = Inr (toString (if h = 0 then 12 else if 12 < h then int h - 12 else int h) @ '':''
                 @ [digitChar (m div 10), digitChar (m mod 10)] @ '' ''
                 @ (if 12 \<le> h then ''PM'' else ''AM'')))
   \<and> formatTime12Hour ''00:00'' = Inr ''12:00 AM''
   \<and> formatTime12Hour ''09:00'' = Inr ''9:00 AM''
   \<and> formatTime12Hour ''12:00'' = Inr ''12:00 PM''
   \<and> formatTime12Hour ''13:15'' = Inr ''1:15 PM''
   \<and> formatTime12Hour ''23:45'' = Inr ''11:45 PM''"
proof -
  have general: "formatTime12Hour ([digitChar (h div 10), digitChar (h mod 10)] @ '':''
                          @ [digitChar (m div 10), digitChar (m mod 10)])
        = Inr (toString (if h = 0 then 12 else if 12 < h then int h - 12 else int h) @ '':''
                 @ [digitChar (m div 10), digitChar (m mod 10)] @ '' ''
                 @ (if 12 \<le> h then ''PM'' else ''AM''))"
    if "h < 24 \<and> m < 60"
  proof -
    from that have h: "h < 60" and m: "m < 60"
      by simp_all
    have "split CHR '':'' ([digitChar (h div 10), digitChar (h mod 10)] @ '':''
                          @ [digitChar (m div 10), digitChar (m mod 10)])
            = [[digitChar (h div 10), digitChar (h mod 10)], [digitChar (m div 10), digitChar (m mod 10)]]"
      using two_digit(2,3) [OF h] two_digit(2,3) [OF m] by (rule split_clock)
    then show ?thesis
      unfolding formatTime12Hour_def
      by (simp add: two_digit(1) [OF h] two_digit(1) [OF m] two_digit(4) [OF m] Let_def
            del: append.simps split.simps)
  qed
  have "formatTime12Hour ''00:00'' = Inr ''12:00 AM''"
    by code_simp
  moreover have "formatTime12Hour ''09:00'' = Inr ''9:00 AM''"
    by code_simp
  moreover have "formatTime12Hour ''12:00'' = Inr ''12:00 PM''"
    by code_simp
  moreover have "formatTime12Hour ''13:15'' = Inr ''1:15 PM''"
    by code_simp
  moreover have "formatTime12Hour ''23:45'' = Inr ''11:45 PM''"
    by code_simp
  ultimately show ?thesis
    using general by blast
qed

theorem formatTime12Hour_policy_witness:
  "(17::nat) < 24 \<and> (5::nat) < 60 \<and> formatTime12Hour ''17:05'' = Inr ''5:05 PM''"
proof -
  have h: "(17::nat) < 24 \<and> (5::nat) < 60"
    by simp
  have i: "[digitChar (17 div 10), digitChar (17 mod 10)] @ '':''
             @ [digitChar (5 div 10), digitChar (5 mod 10)] = ''17:05''"
    by code_simp
  have o: "toString (if (17::nat) = 0 then 12 else if 12 < (17::nat) then int 17 - 12 else int 17) @ '':''
                 @ [digitChar (5 div 10), digitChar (5 mod 10)] @ '' ''
                 @ (if 12 \<le> (17::nat) then ''PM'' else ''AM'') = ''5:05 PM''"
    by code_simp
  from formatTime12Hour_policy [of 17 5] h
  have "formatTime12Hour ([digitChar (17 div 10), digitChar (17 mod 10)] @ '':''
                          @ [digitChar (5 div 10), digitChar (5 mod 10)])
        = Inr (toString (if (17::nat) = 0 then 12 else if 12 < (17::nat) then int 17 - 12 else int 17) @ '':''
                 @ [digitChar (5 div 10), digitChar (5 mod 10)] @ '' ''
                 @ (if 12 \<le> (17::nat) then ''PM'' else ''AM''))"
    by blast
  then have "formatTime12Hour ''17:05'' = Inr ''5:05 PM''"
    by (simp only: i o)
  with h show ?thesis by blast
qed

section \<open>Initialising a week\<close>

lemma day_initializeDay: "day (initializeDay s d) = d"
  by (simp add: initializeDay_def split: option.split)

lemma days_all: "d \<in> set days"
  by (cases d) (simp_all add: days_def)

lemma days_distinct: "distinct days"
  by (simp add: days_def)

lemma find_keyed:
  "distinct ds \<Longrightarrow> d \<in> set ds \<Longrightarrow> (\<And>x. k (f x) = x)
   \<Longrightarrow> find (\<lambda>e. k e = d) (map f ds) = Some (f d)"
  by (induction ds) auto

lemma find_initializeSchedule:
  "find (\<lambda>e. day e = d) (initializeSchedule s) = Some (initializeDay s d)"
  unfolding initializeSchedule_def
  by (rule find_keyed [OF days_distinct days_all]) (rule day_initializeDay)

lemma defaultSlot_idem: "defaultSlot (defaultSlot x) = defaultSlot x"
  by (simp add: defaultSlot_def orTrue_def)

lemma initializeDay_idem: "initializeDay (initializeSchedule s) d = initializeDay s d"
proof -
  have "initializeDay (initializeSchedule s) d
          = \<lparr>day = d, slots = map defaultSlot (slots (initializeDay s d))\<rparr>"
    by (simp add: initializeDay_def [of "initializeSchedule s"] find_initializeSchedule)
  also have "\<dots> = initializeDay s d"
    by (simp add: initializeDay_def defaultSlot_idem split: option.split)
  finally show ?thesis .
qed

text \<open>
  C9. \<open>initializeSchedule\<close> is idempotent: initialising an initialised schedule gives
  the same schedule. On the empty input it gives the seven weekdays, each with no slots,
  and initialising that again reproduces it.
\<close>

theorem initializeSchedule_idempotent:
  "initializeSchedule (initializeSchedule s) = initializeSchedule s
   \<and> initializeSchedule [] =
       [\<lparr>day = Monday, slots = []\<rparr>, \<lparr>day = Tuesday, slots = []\<rparr>,
        \<lparr>day = Wednesday, slots = []\<rparr>, \<lparr>day = Thursday, slots = []\<rparr>,
        \<lparr>day = Friday, slots = []\<rparr>, \<lparr>day = Saturday, slots = []\<rparr>,
        \<lparr>day = Sunday, slots = []\<rparr>]
   \<and> initializeSchedule (initializeSchedule []) = initializeSchedule []"
proof -
  have idem: "initializeSchedule (initializeSchedule t) = initializeSchedule t" for t
  proof -
    have "initializeSchedule (initializeSchedule t)
            = map (initializeDay (initializeSchedule t)) days"
      by (rule initializeSchedule_def)
    also have "\<dots> = map (initializeDay t) days"
      by (rule map_cong [OF refl]) (rule initializeDay_idem)
    also have "\<dots> = initializeSchedule t"
      by (simp only: initializeSchedule_def)
    finally show ?thesis .
  qed
  have "initializeSchedule [] =
       [\<lparr>day = Monday, slots = []\<rparr>, \<lparr>day = Tuesday, slots = []\<rparr>,
        \<lparr>day = Wednesday, slots = []\<rparr>, \<lparr>day = Thursday, slots = []\<rparr>,
        \<lparr>day = Friday, slots = []\<rparr>, \<lparr>day = Saturday, slots = []\<rparr>,
        \<lparr>day = Sunday, slots = []\<rparr>]"
    by (simp add: initializeSchedule_def initializeDay_def days_def)
  with idem [of s] idem [of "[]"] show ?thesis
    by blast
qed

text \<open>
  C5. For every input, \<open>initializeSchedule\<close> returns seven entries, one per weekday in
  the order Monday to Sunday. The entry of weekday \<open>d\<close> has no slots when the input has
  no entry for \<open>d\<close>; otherwise it has as many slots as the input's entry for \<open>d\<close> (the
  first one, should the input hold several), each with the same number and times and
  with \<open>isAvailable\<close> kept when present and set to true when absent.
\<close>

theorem initializeSchedule_week:
  "length (initializeSchedule s) = 7
   \<and> map day (initializeSchedule s)
       = [Monday, Tuesday, Wednesday, Thursday, Friday, Saturday, Sunday]
   \<and> (\<exists>e'. find (\<lambda>x. day x = d) (initializeSchedule s) = Some e' \<and> day e' = d
        \<and> (case find (\<lambda>x. day x = d) s of
              None \<Rightarrow> slots e' = []
            | Some e \<Rightarrow>
                length (slots e') = length (slots e)
                \<and> (\<forall>j < length (slots e).
                      slotNumber (slots e' ! j) = slotNumber (slots e ! j)
                      \<and> startTime (slots e' ! j) = startTime (slots e ! j)
                      \<and> endTime (slots e' ! j) = endTime (slots e ! j)
                      \<and> isAvailable (slots e' ! j)
                          = Some (case isAvailable (slots e ! j) of None \<Rightarrow> True | Some b \<Rightarrow> b))))"
proof -
  have "length (initializeSchedule s) = 7"
    by (simp add: initializeSchedule_def days_def)
  moreover have "map day (initializeSchedule s)
       = [Monday, Tuesday, Wednesday, Thursday, Friday, Saturday, Sunday]"
    by (simp add: initializeSchedule_def days_def day_initializeDay)
  moreover have "case find (\<lambda>x. day x = d) s of
              None \<Rightarrow> slots (initializeDay s d) = []
            | Some e \<Rightarrow>
                length (slots (initializeDay s d)) = length (slots e)
                \<and> (\<forall>j < length (slots e).
                      slotNumber (slots (initializeDay s d) ! j) = slotNumber (slots e ! j)
                      \<and> startTime (slots (initializeDay s d) ! j) = startTime (slots e ! j)
                      \<and> endTime (slots (initializeDay s d) ! j) = endTime (slots e ! j)
                      \<and> isAvailable (slots (initializeDay s d) ! j)
                          = Some (case isAvailable (slots e ! j) of None \<Rightarrow> True | Some b \<Rightarrow> b))"
    by (simp add: initializeDay_def defaultSlot_def orTrue_def split: option.split)
  ultimately show ?thesis
    using find_initializeSchedule [of d s] day_initializeDay [of s d] by blast
qed

theorem initializeSchedule_week_witness:
  "(0::nat) < length (slots \<lparr>day = Tuesday, slots =
        [\<lparr>slotNumber = 5, startTime = ''10:00'', endTime = ''10:15'', isAvailable = None\<rparr>,
         \<lparr>slotNumber = 6, startTime = ''10:15'', endTime = ''10:30'', isAvailable = Some False\<rparr>]\<rparr>)
   \<and> (\<exists>e'. find (\<lambda>x. day x = Tuesday) (initializeSchedule [\<lparr>day = Tuesday, slots =
        [\<lparr>slotNumber = 5, startTime = ''10:00'', endTime = ''10:15'', isAvailable = None\<rparr>,
         \<lparr>slotNumber = 6, startTime = ''10:15'', endTime = ''10:30'', isAvailable = Some False\<rparr>]\<rparr>])
          = Some e'
        \<and> length (slots e') = 2
        \<and> slotNumber (slots e' ! 0) = 5
        \<and> isAvailable (slots e' ! 0) = Some True)"
proof -
  define e where "e = \<lparr>day = Tuesday, slots =
        [\<lparr>slotNumber = 5, startTime = ''10:00'', endTime = ''10:15'', isAvailable = None\<rparr>,
         \<lparr>slotNumber = 6, startTime = ''10:15'', endTime = ''10:30'', isAvailable = Some False\<rparr>]\<rparr>"
  have f: "find (\<lambda>x. day x = Tuesday) [e] = Some e"
    by (simp add: e_def)
  have l: "length (slots e) = 2" and z: "(0::nat) < length (slots e)"
    and n: "slotNumber (slots e ! 0) = 5" and a: "isAvailable (slots e ! 0) = None"
    by (simp_all add: e_def)
  from initializeSchedule_week [of "[e]" Tuesday]
  obtain e' where e': "find (\<lambda>x. day x = Tuesday) (initializeSchedule [e]) = Some e'"
    and c: "case find (\<lambda>x. day x = Tuesday) [e] of
              None \<Rightarrow> slots e' = []
            | Some e \<Rightarrow>
                length (slots e') = length (slots e)
                \<and> (\<forall>j < length (slots e).
                      slotNumber (slots e' ! j) = slotNumber (slots e ! j)
                      \<and> startTime (slots e' ! j) = startTime (slots e ! j)
                      \<and> endTime (slots e' ! j) = endTime (slots e ! j)
                      \<and> isAvailable (slots e' ! j)
                          = Some (case isAvailable (slots e ! j) of None \<Rightarrow> True | Some b \<Rightarrow> b))"
    by blast
  from c [unfolded f option.case] have both: "length (slots e') = length (slots e)
                \<and> (\<forall>j < length (slots e).
                      slotNumber (slots e' ! j) = slotNumber (slots e ! j)
                      \<and> startTime (slots e' ! j) = startTime (slots e ! j)
                      \<and> endTime (slots e' ! j) = endTime (slots e ! j)
                      \<and> isAvailable (slots e' ! j)
                          = Some (case isAvailable (slots e ! j) of None \<Rightarrow> True | Some b \<Rightarrow> b))"
    .
  then have len: "length (slots e') = length (slots e)"
    and each: "\<forall>j < length (slots e).
                      slotNumber (slots e' ! j) = slotNumber (slots e ! j)
                      \<and> startTime (slots e' ! j) = startTime (slots e ! j)
                      \<and> endTime (slots e' ! j) = endTime (slots e ! j)
                      \<and> isAvailable (slots e' ! j)
                          = Some (case isAvailable (slots e ! j) of None \<Rightarrow> True | Some b \<Rightarrow> b)"
    by blast+
  from each z have "slotNumber (slots e' ! 0) = slotNumber (slots e ! 0)"
    and "isAvailable (slots e' ! 0)
           = Some (case isAvailable (slots e ! 0) of None \<Rightarrow> True | Some b \<Rightarrow> b)"
    by blast+
  with n a have "slotNumber (slots e' ! 0) = 5" "isAvailable (slots e' ! 0) = Some True"
    by simp_all
  with e' len l z show ?thesis
    unfolding e_def by auto
qed

section \<open>Cleaning for persistence\<close>

text \<open>
  C3. The \<open>cleanedSchedule\<close> computation keeps, in the input's order, the entries that
  have at least one slot with \<open>isAvailable\<close> true, each with exactly its slots whose
  \<open>isAvailable\<close> is true, in their order; every other entry is dropped. So no entry of
  the output is empty and no slot of the output is unavailable.
\<close>

theorem cleanedSchedule_keeps_available:
  "cleanedSchedule s
     = map (\<lambda>d. d\<lparr>slots := filter (\<lambda>x. isAvailable x = Some True) (slots d)\<rparr>)
         (filter (\<lambda>d. \<exists>x \<in> set (slots d). isAvailable x = Some True) s)
   \<and> (\<forall>d \<in> set (cleanedSchedule s).
         slots d \<noteq> [] \<and> (\<forall>x \<in> set (slots d). isAvailable x = Some True))"
proof -
  have shape: "cleanedSchedule s
     = map (\<lambda>d. d\<lparr>slots := filter (\<lambda>x. isAvailable x = Some True) (slots d)\<rparr>)
         (filter (\<lambda>d. \<exists>x \<in> set (slots d). isAvailable x = Some True) s)"
    unfolding cleanedSchedule_def truthy_def
    by (induction s) (auto simp: filter_empty_conv)
  have "slots d \<noteq> [] \<and> (\<forall>x \<in> set (slots d). isAvailable x = Some True)"
    if "d \<in> set (cleanedSchedule s)" for d
    using that unfolding shape by (auto simp: filter_empty_conv)
  with shape show ?thesis
    by blast
qed

theorem cleanedSchedule_keeps_available_witness:
  "cleanedSchedule
     [\<lparr>day = Monday, slots =
         [\<lparr>slotNumber = 5, startTime = ''10:00'', endTime = ''10:15'', isAvailable = Some True\<rparr>,
          \<lparr>slotNumber = 6, startTime = ''10:15'', endTime = ''10:30'', isAvailable = Some False\<rparr>]\<rparr>,
      \<lparr>day = Tuesday, slots =
         [\<lparr>slotNumber = 7, startTime = ''10:30'', endTime = ''10:45'', isAvailable = Some False\<rparr>]\<rparr>]
     = [\<lparr>day = Monday, slots =
         [\<lparr>slotNumber = 5, startTime = ''10:00'', endTime = ''10:15'', isAvailable = Some True\<rparr>]\<rparr>]
   \<and> \<lparr>day = Monday, slots =
         [\<lparr>slotNumber = 5, startTime = ''10:00'', endTime = ''10:15'', isAvailable = Some True\<rparr>]\<rparr>
       \<in> set (cleanedSchedule
     [\<lparr>day = Monday, slots =
         [\<lparr>slotNumber = 5, startTime = ''10:00'', endTime = ''10:15'', isAvailable = Some True\<rparr>,
          \<lparr>slotNumber = 6, startTime = ''10:15'', endTime = ''10:30'', isAvailable = Some False\<rparr>]\<rparr>,
      \<lparr>day = Tuesday, slots =
         [\<lparr>slotNumber = 7, startTime = ''10:30'', endTime = ''10:45'', isAvailable = Some False\<rparr>]\<rparr>])
   \<and> slots \<lparr>day = Monday, slots =
         [\<lparr>slotNumber = 5, startTime = ''10:00'', endTime = ''10:15'', isAvailable = Some True\<rparr>]\<rparr>
       \<noteq> []"
proof -
  define s where "s =
     [\<lparr>day = Monday, slots =
         [\<lparr>slotNumber = 5, startTime = ''10:00'', endTime = ''10:15'', isAvailable = Some True\<rparr>,
          \<lparr>slotNumber = 6, startTime = ''10:15'', endTime = ''10:30'', isAvailable = Some False\<rparr>]\<rparr>,
      \<lparr>day = Tuesday, slots =
         [\<lparr>slotNumber = 7, startTime = ''10:30'', endTime = ''10:45'', isAvailable = Some False\<rparr>]\<rparr>]"
  define m where "m = \<lparr>day = Monday, slots =
         [\<lparr>slotNumber = 5, startTime = ''10:00'', endTime = ''10:15'', isAvailable = Some True\<rparr>]\<rparr>"
  from cleanedSchedule_keeps_available [of s]
  have shape: "cleanedSchedule s
     = map (\<lambda>d. d\<lparr>slots := filter (\<lambda>x. isAvailable x = Some True) (slots d)\<rparr>)
         (filter (\<lambda>d. \<exists>x \<in> set (slots d). isAvailable x = Some True) s)"
    and clean: "\<forall>d \<in> set (cleanedSchedule s).
         slots d \<noteq> [] \<and> (\<forall>x \<in> set (slots d). isAvailable x = Some True)"
    by blast+
  have "map (\<lambda>d. d\<lparr>slots := filter (\<lambda>x. isAvailable x = Some True) (slots d)\<rparr>)
         (filter (\<lambda>d. \<exists>x \<in> set (slots d). isAvailable x = Some True) s) = [m]"
    by (simp add: s_def m_def)
  with shape have eq: "cleanedSchedule s = [m]"
    by (simp only:)
  then have mem: "m \<in> set (cleanedSchedule s)"
    by simp
  with clean have "slots m \<noteq> []"
    by blast
  with eq mem show ?thesis
    unfolding s_def m_def by blast
qed

section \<open>Toggling a slot\<close>

lemma findIndex_lower: "- 1 \<le> findIndex p xs"
  by (induction xs) (auto simp: Let_def)

lemma findIndex_absent: "(\<forall>x \<in> set xs. \<not> p x) \<Longrightarrow> findIndex p xs = - 1"
  by (induction xs) (auto simp: Let_def)

lemma findIndex_first:
  "k < length xs \<Longrightarrow> p (xs ! k) \<Longrightarrow> (\<forall>j < k. \<not> p (xs ! j)) \<Longrightarrow> findIndex p xs = int k"
proof (induction xs arbitrary: k)
  case Nil
  then show ?case by simp
next
  case (Cons x xs)
  show ?case
  proof (cases k)
    case 0
    with Cons.prems show ?thesis by simp
  next
    case (Suc k')
    with Cons.prems have "\<not> p x"
      by auto
    moreover from Suc Cons.prems have "findIndex p xs = int k'"
      by (intro Cons.IH) auto
    ultimately show ?thesis
      using Suc by (simp add: Let_def)
  qed
qed

lemma findIndex_present:
  "findIndex p xs \<ge> 0 \<Longrightarrow> nat (findIndex p xs) < length xs \<and> p (xs ! nat (findIndex p xs))"
proof (induction xs)
  case Nil
  then show ?case by simp
next
  case (Cons x xs)
  show ?case
  proof (cases "p x")
    case True
    then show ?thesis by simp
  next
    case False
    with Cons.prems have ge: "findIndex p xs \<ge> 0"
      by (simp add: Let_def split: if_splits)
    with False have "findIndex p (x # xs) = findIndex p xs + 1"
      by (simp add: Let_def)
    moreover from ge have "nat (findIndex p xs + 1) = Suc (nat (findIndex p xs))"
      by simp
    ultimately show ?thesis
      using Cons.IH [OF ge] by simp
  qed
qed

lemma findIndex_found: "x \<in> set xs \<Longrightarrow> p x \<Longrightarrow> findIndex p xs \<ge> 0"
  by (induction xs) (auto simp: Let_def)

lemma day_toggleEntry: "day (toggleEntry d n e) = day e"
  by (simp add: toggleEntry_def Let_def split: option.split)

lemma toggleEntry_other: "day e \<noteq> d \<Longrightarrow> toggleEntry d n e = e"
  by (simp add: toggleEntry_def)

lemma toggleEntry_existing:
  assumes "day e = d" "k < length (slots e)" "slotNumber (slots e ! k) = n"
    "\<forall>j < k. slotNumber (slots e ! j) \<noteq> n"
  shows "toggleEntry d n e
           = e\<lparr>slots := (slots e)[k := (slots e ! k)\<lparr>isAvailable :=
                                        Some (\<not> truthy (isAvailable (slots e ! k)))\<rparr>]\<rparr>"
proof -
  have "findIndex (\<lambda>s. slotNumber s = n) (slots e) = int k"
    using assms(2-4) by (intro findIndex_first) auto
  then show ?thesis
    using assms(1) by (simp add: toggleEntry_def Let_def)
qed

lemma toggleEntry_insert:
  assumes "day e = d" "\<forall>x \<in> set (slots e). slotNumber x \<noteq> n" "getSlotByNumber n = Some c"
  shows "toggleEntry d n e
           = e\<lparr>slots := sort_key slotNumber
                 (slots e @ [\<lparr>slotNumber = slotNumber c, startTime = startTime c,
                               endTime = endTime c, isAvailable = Some True\<rparr>])\<rparr>"
proof -
  have "findIndex (\<lambda>s. slotNumber s = n) (slots e) = - 1"
    using assms(2) by (intro findIndex_absent) auto
  then show ?thesis
    using assms(1,3) by (simp add: toggleEntry_def Let_def getSlotByNumber_def)
qed

lemma toggleEntry_unknown:
  assumes "day e = d \<longrightarrow> (\<forall>x \<in> set (slots e). slotNumber x \<noteq> n)" "getSlotByNumber n = None"
  shows "toggleEntry d n e = e"
proof (cases "day e = d")
  case True
  with assms(1) have "findIndex (\<lambda>s. slotNumber s = n) (slots e) = - 1"
    by (intro findIndex_absent) auto
  then show ?thesis
    using True assms(2) by (simp add: toggleEntry_def Let_def getSlotByNumber_def)
next
  case False
  then show ?thesis by (rule toggleEntry_other)
qed

lemma toggle_Some:
  "toggleSlotAvailability (Some fd) d n = Some (fd\<lparr>schedule := map (toggleEntry d n) (schedule fd)\<rparr>)"
  by (simp add: toggleSlotAvailability_def updatedSchedule_def)

text \<open>
  C8. \<open>toggleSlotAvailability\<close> on weekday \<open>d\<close> returns a form state whose schedule has
  the same length and the same weekdays, and whose entries for every weekday other than
  \<open>d\<close> are equal to the input's. Without a form state it does nothing.
\<close>

theorem toggle_other_days_unchanged:
  "toggleSlotAvailability None d n = None
   \<and> (\<exists>fd'. toggleSlotAvailability (Some fd) d n = Some fd'
         \<and> length (schedule fd') = length (schedule fd)
         \<and> map day (schedule fd') = map day (schedule fd)
         \<and> (\<forall>i < length (schedule fd).
               day (schedule fd ! i) \<noteq> d \<longrightarrow> schedule fd' ! i = schedule fd ! i))"
proof -
  define fd' where "fd' = fd\<lparr>schedule := map (toggleEntry d n) (schedule fd)\<rparr>"
  have "toggleSlotAvailability (Some fd) d n = Some fd'"
    by (simp add: toggle_Some fd'_def)
  moreover have "length (schedule fd') = length (schedule fd)"
    by (simp add: fd'_def)
  moreover have "map day (schedule fd') = map day (schedule fd)"
    by (simp add: fd'_def day_toggleEntry)
  moreover have "schedule fd' ! i = schedule fd ! i"
    if "i < length (schedule fd)" "day (schedule fd ! i) \<noteq> d" for i
    using that by (simp add: fd'_def toggleEntry_other)
  moreover have "toggleSlotAvailability None d n = None"
    by (simp add: toggleSlotAvailability_def)
  ultimately show ?thesis
    by blast
qed

theorem toggle_other_days_unchanged_witness:
  "(1::nat) < length (schedule (initialFormData\<lparr>schedule := initializeSchedule []\<rparr>))
   \<and> day (schedule (initialFormData\<lparr>schedule := initializeSchedule []\<rparr>) ! 1) \<noteq> Monday
   \<and> (\<exists>fd'. toggleSlotAvailability (Some (initialFormData\<lparr>schedule := initializeSchedule []\<rparr>))
                 Monday 5 = Some fd'
         \<and> schedule fd' ! 1 = \<lparr>day = Tuesday, slots = []\<rparr>)"
proof -
  define fd where "fd = initialFormData\<lparr>schedule := initializeSchedule []\<rparr>"
  have s: "schedule fd = initializeSchedule []"
    by (simp add: fd_def)
  have l: "(1::nat) < length (schedule fd)"
    by (simp add: s initializeSchedule_def days_def)
  have e: "schedule fd ! 1 = \<lparr>day = Tuesday, slots = []\<rparr>"
    by (simp add: s initializeSchedule_def days_def initializeDay_def)
  then have d: "day (schedule fd ! 1) \<noteq> Monday"
    by simp
  from toggle_other_days_unchanged [of Monday 5 fd] obtain fd'
    where t: "toggleSlotAvailability (Some fd) Monday 5 = Some fd'"
      and f: "\<forall>i < length (schedule fd).
               day (schedule fd ! i) \<noteq> Monday \<longrightarrow> schedule fd' ! i = schedule fd ! i"
    by blast
  from f l d have "schedule fd' ! 1 = schedule fd ! 1"
    by blast
  with e have "schedule fd' ! 1 = \<lparr>day = Tuesday, slots = []\<rparr>"
    by simp
  with t l d show ?thesis
    unfolding fd_def by blast
qed

text \<open>
  C2. For an entry \<open>e\<close> of the schedule whose weekday is the toggled one, with \<open>e'\<close> the
  entry at the same position afterwards: if a slot with number \<open>n\<close> exists in \<open>e\<close>, the
  first such slot has its \<open>isAvailable\<close> flipped (an absent flag counts as false) and
  stays in place, all other slots unchanged; if none exists and the catalog has slot
  \<open>n\<close>, the slots of \<open>e'\<close> are those of \<open>e\<close> plus the catalog slot with
  \<open>isAvailable\<close> true, sorted ascending by slot number; and if \<open>n\<close> is neither in
  the slots of the entries of that weekday nor in the catalog, the whole form state is
  returned unchanged.
\<close>

theorem toggle_semantics:
  assumes "i < length (schedule fd)" and "day (schedule fd ! i) = d"
  shows "\<exists>fd' e e'. toggleSlotAvailability (Some fd) d n = Some fd'
           \<and> length (schedule fd') = length (schedule fd)
           \<and> e = schedule fd ! i \<and> e' = schedule fd' ! i
           \<and> day e' = d
           \<and> (\<forall>k. k < length (slots e) \<and> slotNumber (slots e ! k) = n
                     \<and> (\<forall>j < k. slotNumber (slots e ! j) \<noteq> n) \<longrightarrow>
                  slots e' = (slots e)[k := (slots e ! k)\<lparr>isAvailable :=
                                               Some (\<not> truthy (isAvailable (slots e ! k)))\<rparr>]
                  \<and> length (slots e') = length (slots e))
           \<and> (\<forall>c. (\<forall>x \<in> set (slots e). slotNumber x \<noteq> n) \<and> getSlotByNumber n = Some c \<longrightarrow>
                  slots e' = sort_key slotNumber
                               (slots e @ [\<lparr>slotNumber = n, startTime = startTime c,
                                            endTime = endTime c, isAvailable = Some True\<rparr>])
                  \<and> sorted (map slotNumber (slots e'))
                  \<and> mset (slots e') = mset (slots e)
                        + {#\<lparr>slotNumber = n, startTime = startTime c,
                              endTime = endTime c, isAvailable = Some True\<rparr>#})
           \<and> ((\<forall>x \<in> set (schedule fd). day x = d \<longrightarrow> (\<forall>y \<in> set (slots x). slotNumber y \<noteq> n))
                  \<and> getSlotByNumber n = None \<longrightarrow> fd' = fd)"
proof -
  define fd' where "fd' = fd\<lparr>schedule := map (toggleEntry d n) (schedule fd)\<rparr>"
  define e where "e = schedule fd ! i"
  define e' where "e' = schedule fd' ! i"
  have e'_eq: "e' = toggleEntry d n e"
    using assms(1) by (simp add: e'_def e_def fd'_def)
  have de: "day e = d"
    using assms(2) by (simp add: e_def)
  have t: "toggleSlotAvailability (Some fd) d n = Some fd'"
    by (simp add: toggle_Some fd'_def)
  have len: "length (schedule fd') = length (schedule fd)"
    by (simp add: fd'_def)
  have day': "day e' = d"
    by (simp add: e'_eq day_toggleEntry de)
  have flip: "slots e' = (slots e)[k := (slots e ! k)\<lparr>isAvailable :=
                                               Some (\<not> truthy (isAvailable (slots e ! k)))\<rparr>]
                  \<and> length (slots e') = length (slots e)"
    if "k < length (slots e) \<and> slotNumber (slots e ! k) = n
                     \<and> (\<forall>j < k. slotNumber (slots e ! j) \<noteq> n)" for k
  proof -
    from that de have "toggleEntry d n e
           = e\<lparr>slots := (slots e)[k := (slots e ! k)\<lparr>isAvailable :=
                                        Some (\<not> truthy (isAvailable (slots e ! k)))\<rparr>]\<rparr>"
      by (intro toggleEntry_existing) auto
    then show ?thesis
      by (simp add: e'_eq)
  qed
  have ins: "slots e' = sort_key slotNumber
                               (slots e @ [\<lparr>slotNumber = n, startTime = startTime c,
                                            endTime = endTime c, isAvailable = Some True\<rparr>])
                  \<and> sorted (map slotNumber (slots e'))
                  \<and> mset (slots e') = mset (slots e)
                        + {#\<lparr>slotNumber = n, startTime = startTime c,
                              endTime = endTime c, isAvailable = Some True\<rparr>#}"
    if h: "(\<forall>x \<in> set (slots e). slotNumber x \<noteq> n) \<and> getSlotByNumber n = Some c" for c
  proof -
    from h have "slotNumber c = n"
      by (auto simp: getSlotByNumber_def find_Some_iff)
    with h de have "slots e' = sort_key slotNumber
                               (slots e @ [\<lparr>slotNumber = n, startTime = startTime c,
                                            endTime = endTime c, isAvailable = Some True\<rparr>])"
      by (simp add: e'_eq toggleEntry_insert)
    moreover have "sorted (map slotNumber (sort_key slotNumber xs))" for xs :: "Slot list"
      by (rule sorted_sort_key)
    moreover have "mset (sort_key slotNumber (xs @ [y])) = mset xs + {#y#}" for xs and y :: Slot
      by simp
    ultimately show ?thesis
      by (simp only:)
  qed
  have unknown: "fd' = fd"
    if h: "(\<forall>x \<in> set (schedule fd). day x = d \<longrightarrow> (\<forall>y \<in> set (slots x). slotNumber y \<noteq> n))
                  \<and> getSlotByNumber n = None"
  proof -
    have "map (toggleEntry d n) (schedule fd) = map (\<lambda>x. x) (schedule fd)"
      using h by (intro map_cong refl toggleEntry_unknown) auto
    then show ?thesis
      by (simp add: fd'_def)
  qed
  show ?thesis
  proof (intro exI conjI)
    show "toggleSlotAvailability (Some fd) d n = Some fd'"
      by (rule t)
    show "length (schedule fd') = length (schedule fd)"
      by (rule len)
    show "e = schedule fd ! i"
      by (rule e_def)
    show "e' = schedule fd' ! i"
      by (rule e'_def)
    show "day e' = d"
      by (rule day')
    show "\<forall>k. k < length (slots e) \<and> slotNumber (slots e ! k) = n
                     \<and> (\<forall>j < k. slotNumber (slots e ! j) \<noteq> n) \<longrightarrow>
                  slots e' = (slots e)[k := (slots e ! k)\<lparr>isAvailable :=
                                               Some (\<not> truthy (isAvailable (slots e ! k)))\<rparr>]
                  \<and> length (slots e') = length (slots e)"
      using flip by (intro allI impI)
    show "\<forall>c. (\<forall>x \<in> set (slots e). slotNumber x \<noteq> n) \<and> getSlotByNumber n = Some c \<longrightarrow>
                  slots e' = sort_key slotNumber
                               (slots e @ [\<lparr>slotNumber = n, startTime = startTime c,
                                            endTime = endTime c, isAvailable = Some True\<rparr>])
                  \<and> sorted (map slotNumber (slots e'))
                  \<and> mset (slots e') = mset (slots e)
                        + {#\<lparr>slotNumber = n, startTime = startTime c,
                              endTime = endTime c, isAvailable = Some True\<rparr>#}"
      using ins by (intro allI impI)
    show "(\<forall>x \<in> set (schedule fd). day x = d \<longrightarrow> (\<forall>y \<in> set (slots x). slotNumber y \<noteq> n))
                  \<and> getSlotByNumber n = None \<longrightarrow> fd' = fd"
      using unknown by (intro impI)
  qed
qed

theorem toggle_semantics_witness:
  "(0::nat) < length (schedule (initialFormData\<lparr>schedule := [\<lparr>day = Monday, slots =
        [\<lparr>slotNumber = 3, startTime = ''09:30'', endTime = ''09:45'', isAvailable = Some True\<rparr>]\<rparr>]\<rparr>))
   \<and> (\<exists>fd'. toggleSlotAvailability (Some (initialFormData\<lparr>schedule := [\<lparr>day = Monday, slots =
        [\<lparr>slotNumber = 3, startTime = ''09:30'', endTime = ''09:45'', isAvailable = Some True\<rparr>]\<rparr>]\<rparr>))
          Monday 3 = Some fd'
        \<and> slots (schedule fd' ! 0)
            = [\<lparr>slotNumber = 3, startTime = ''09:30'', endTime = ''09:45'', isAvailable = Some False\<rparr>])
   \<and> (\<exists>fd'. toggleSlotAvailability (Some (initialFormData\<lparr>schedule := [\<lparr>day = Monday, slots =
        [\<lparr>slotNumber = 3, startTime = ''09:30'', endTime = ''09:45'', isAvailable = Some True\<rparr>]\<rparr>]\<rparr>))
          Monday 1 = Some fd'
        \<and> slots (schedule fd' ! 0)
            = [\<lparr>slotNumber = 1, startTime = ''09:00'', endTime = ''09:15'', isAvailable = Some True\<rparr>,
               \<lparr>slotNumber = 3, startTime = ''09:30'', endTime = ''09:45'', isAvailable = Some True\<rparr>])
   \<and> toggleSlotAvailability (Some (initialFormData\<lparr>schedule := [\<lparr>day = Monday, slots =
        [\<lparr>slotNumber = 3, startTime = ''09:30'', endTime = ''09:45'', isAvailable = Some True\<rparr>]\<rparr>]\<rparr>))
          Monday 999
       = Some (initialFormData\<lparr>schedule := [\<lparr>day = Monday, slots =
        [\<lparr>slotNumber = 3, startTime = ''09:30'', endTime = ''09:45'', isAvailable = Some True\<rparr>]\<rparr>]\<rparr>)"
proof -
  define s3 :: Slot
    where "s3 = \<lparr>slotNumber = 3, startTime = ''09:30'', endTime = ''09:45'', isAvailable = Some True\<rparr>"
  define fd where "fd = initialFormData\<lparr>schedule := [\<lparr>day = Monday, slots = [s3]\<rparr>]\<rparr>"
  have sch: "schedule fd = [\<lparr>day = Monday, slots = [s3]\<rparr>]"
    by (simp add: fd_def)
  have i: "(0::nat) < length (schedule fd)" and d: "day (schedule fd ! 0) = Monday"
    and sl: "slots (schedule fd ! 0) = [s3]"
    by (simp_all add: sch)
  have c1: "getSlotByNumber 1 = Some \<lparr>slotNumber = 1, startTime = ''09:00'', endTime = ''09:15''\<rparr>"
    by code_simp
  have c999: "getSlotByNumber 999 = None"
    by (simp add: getSlotByNumber_eq)
  have a: "\<exists>fd'. toggleSlotAvailability (Some fd) Monday 3 = Some fd'
             \<and> slots (schedule fd' ! 0) = [s3\<lparr>isAvailable := Some False\<rparr>]"
  proof -
    have h: "(0::nat) < length [s3] \<and> slotNumber ([s3] ! 0) = 3
               \<and> (\<forall>j < (0::nat). slotNumber ([s3] ! j) \<noteq> 3)"
      by (simp add: s3_def)
    from toggle_semantics [OF i d, of 3] obtain fd' e e'
      where "toggleSlotAvailability (Some fd) Monday 3 = Some fd'"
        and "e = schedule fd ! 0" and "e' = schedule fd' ! 0"
        and "\<forall>k. k < length (slots e) \<and> slotNumber (slots e ! k) = 3
                     \<and> (\<forall>j < k. slotNumber (slots e ! j) \<noteq> 3) \<longrightarrow>
                  slots e' = (slots e)[k := (slots e ! k)\<lparr>isAvailable :=
                                               Some (\<not> truthy (isAvailable (slots e ! k)))\<rparr>]
                  \<and> length (slots e') = length (slots e)"
      by blast
    with h sl have "slots (schedule fd' ! 0)
                      = [s3][0 := ([s3] ! 0)\<lparr>isAvailable := Some (\<not> truthy (isAvailable ([s3] ! 0)))\<rparr>]"
      by simp
    also have "\<dots> = [s3\<lparr>isAvailable := Some False\<rparr>]"
      by (simp add: s3_def truthy_def)
    finally show ?thesis
      using \<open>toggleSlotAvailability (Some fd) Monday 3 = Some fd'\<close> by blast
  qed
  have b: "\<exists>fd'. toggleSlotAvailability (Some fd) Monday 1 = Some fd'
             \<and> slots (schedule fd' ! 0)
                 = [\<lparr>slotNumber = 1, startTime = ''09:00'', endTime = ''09:15'', isAvailable = Some True\<rparr>, s3]"
  proof -
    have h: "(\<forall>x \<in> set [s3]. slotNumber x \<noteq> 1)"
      by (simp add: s3_def)
    from toggle_semantics [OF i d, of 1] obtain fd' e e'
      where "toggleSlotAvailability (Some fd) Monday 1 = Some fd'"
        and "e = schedule fd ! 0" and "e' = schedule fd' ! 0"
        and "\<forall>c. (\<forall>x \<in> set (slots e). slotNumber x \<noteq> 1) \<and> getSlotByNumber 1 = Some c \<longrightarrow>
                  slots e' = sort_key slotNumber
                               (slots e @ [\<lparr>slotNumber = 1, startTime = startTime c,
                                            endTime = endTime c, isAvailable = Some True\<rparr>])
                  \<and> sorted (map slotNumber (slots e'))
                  \<and> mset (slots e') = mset (slots e)
                        + {#\<lparr>slotNumber = 1, startTime = startTime c,
                              endTime = endTime c, isAvailable = Some True\<rparr>#}"
      by blast
    with h sl c1 have "slots (schedule fd' ! 0)
                      = sort_key slotNumber ([s3] @ [\<lparr>slotNumber = 1, startTime = ''09:00'',
                                            endTime = ''09:15'', isAvailable = Some True\<rparr>])"
      by simp
    also have "\<dots> = [\<lparr>slotNumber = 1, startTime = ''09:00'', endTime = ''09:15'', isAvailable = Some True\<rparr>, s3]"
      by (simp add: s3_def)
    finally show ?thesis
      using \<open>toggleSlotAvailability (Some fd) Monday 1 = Some fd'\<close> by blast
  qed
  have c: "toggleSlotAvailability (Some fd) Monday 999 = Some fd"
  proof -
    have h: "\<forall>x \<in> set (schedule fd). day x = Monday \<longrightarrow> (\<forall>y \<in> set (slots x). slotNumber y \<noteq> 999)"
      by (simp add: sch s3_def)
    from toggle_semantics [OF i d, of 999] obtain fd'
      where "toggleSlotAvailability (Some fd) Monday 999 = Some fd'"
        and "(\<forall>x \<in> set (schedule fd). day x = Monday \<longrightarrow> (\<forall>y \<in> set (slots x). slotNumber y \<noteq> 999))
                  \<and> getSlotByNumber 999 = None \<longrightarrow> fd' = fd"
      by blast
    with h c999 show ?thesis
      by simp
  qed
  from i a b c show ?thesis
    unfolding fd_def s3_def by simp
qed

section \<open>Toggling twice\<close>

lemma filter_update_same:
  "k < length xs \<Longrightarrow> P z = P (xs ! k) \<Longrightarrow> f z = f (xs ! k)
   \<Longrightarrow> map f (filter P (xs[k := z])) = map f (filter P xs)"
proof (induction xs arbitrary: k)
  case Nil
  then show ?case by simp
next
  case (Cons x xs)
  then show ?case by (cases k) simp_all
qed

lemma findIndex_cong: "map p xs = map p ys \<Longrightarrow> findIndex p xs = findIndex p ys"
proof (induction xs arbitrary: ys)
  case Nil
  then show ?case by simp
next
  case (Cons x xs)
  then obtain y ys' where ys: "ys = y # ys'"
    by (cases ys) auto
  with Cons.prems have "p x = p y" "map p xs = map p ys'"
    by simp_all
  with Cons.IH [of ys'] ys show ?case
    by (simp add: Let_def)
qed

lemma filter_update_unique:
  "length (filter p ys) \<le> 1 \<Longrightarrow> findIndex p ys \<ge> 0 \<Longrightarrow> \<not> P z
   \<Longrightarrow> filter P (ys[nat (findIndex p ys) := z]) = filter P (filter (\<lambda>x. \<not> p x) ys)"
proof (induction ys)
  case Nil
  then show ?case by simp
next
  case (Cons y ys)
  show ?case
  proof (cases "p y")
    case True
    with Cons.prems(1) have "filter p ys = []"
      by simp
    then have "filter (\<lambda>x. \<not> p x) ys = ys"
      by (simp add: filter_empty_conv filter_id_conv)
    with True Cons.prems(3) show ?thesis
      by simp
  next
    case False
    with Cons.prems have ge: "findIndex p ys \<ge> 0" and le: "length (filter p ys) \<le> 1"
      by (simp_all add: Let_def split: if_splits)
    from False ge have "nat (findIndex p (y # ys)) = Suc (nat (findIndex p ys))"
      by (simp add: Let_def)
    with False Cons.IH [OF le ge Cons.prems(3)] show ?thesis
      by simp
  qed
qed

lemma toggleEntry_found:
  "day e = d \<Longrightarrow> findIndex (\<lambda>s. slotNumber s = n) (slots e) \<ge> 0
   \<Longrightarrow> k = nat (findIndex (\<lambda>s. slotNumber s = n) (slots e))
   \<Longrightarrow> toggleEntry d n e
         = e\<lparr>slots := (slots e)[k := (slots e ! k)\<lparr>isAvailable :=
                                      Some (\<not> truthy (isAvailable (slots e ! k)))\<rparr>]\<rparr>"
  by (simp add: toggleEntry_def Let_def)

lemma toggle_twice_present:
  assumes "day e = d" "x \<in> set (slots e)" "slotNumber x = n"
  shows "map slotNumber (filter (\<lambda>x. truthy (isAvailable x))
            (slots (toggleEntry d n (toggleEntry d n e))))
         = map slotNumber (filter (\<lambda>x. truthy (isAvailable x)) (slots e))"
proof -
  let ?p = "\<lambda>s. slotNumber s = n"
  define xs where "xs = slots e"
  define k where "k = nat (findIndex ?p xs)"
  define z where "z = (xs ! k)\<lparr>isAvailable := Some (\<not> truthy (isAvailable (xs ! k)))\<rparr>"
  define z' where "z' = z\<lparr>isAvailable := Some (\<not> truthy (isAvailable z))\<rparr>"
  have ge: "findIndex ?p xs \<ge> 0"
    using assms(2,3) unfolding xs_def by (rule findIndex_found)
  then have k: "k < length xs" and pk: "slotNumber (xs ! k) = n"
    using findIndex_present [of ?p xs] by (simp_all add: k_def)
  have e1: "toggleEntry d n e = e\<lparr>slots := xs[k := z]\<rparr>"
    using assms(1) ge unfolding xs_def z_def k_def
    by (intro toggleEntry_found) (simp_all add: xs_def)
  have "map ?p (xs[k := z]) = map ?p xs"
    using k pk by (simp add: map_update z_def list_update_same_conv)
  then have same: "findIndex ?p (xs[k := z]) = findIndex ?p xs"
    by (rule findIndex_cong)
  have "toggleEntry d n (e\<lparr>slots := xs[k := z]\<rparr>)
          = (e\<lparr>slots := xs[k := z]\<rparr>)\<lparr>slots := (xs[k := z])[k := z']\<rparr>"
  proof -
    have "toggleEntry d n (e\<lparr>slots := xs[k := z]\<rparr>)
          = (e\<lparr>slots := xs[k := z]\<rparr>)\<lparr>slots := (slots (e\<lparr>slots := xs[k := z]\<rparr>))[k :=
               (slots (e\<lparr>slots := xs[k := z]\<rparr>) ! k)\<lparr>isAvailable :=
                  Some (\<not> truthy (isAvailable (slots (e\<lparr>slots := xs[k := z]\<rparr>) ! k)))\<rparr>]\<rparr>"
      using assms(1) ge same by (intro toggleEntry_found) (simp_all add: k_def)
    then show ?thesis
      using k by (simp add: z'_def)
  qed
  then have "slots (toggleEntry d n (toggleEntry d n e)) = xs[k := z']"
    by (simp add: e1)
  moreover have "truthy (isAvailable z') = truthy (isAvailable (xs ! k))"
    by (simp add: z'_def z_def truthy_def)
  moreover have "slotNumber z' = slotNumber (xs ! k)"
    by (simp add: z'_def z_def)
  ultimately show ?thesis
    using k filter_update_same [of k xs "\<lambda>x. truthy (isAvailable x)" z' slotNumber]
    by (simp add: xs_def)
qed

lemma toggle_twice_absent:
  assumes "day e = d" "\<forall>x \<in> set (slots e). slotNumber x \<noteq> n" "getSlotByNumber n = Some c"
  shows "filter (\<lambda>x. truthy (isAvailable x)) (slots (toggleEntry d n (toggleEntry d n e)))
         = filter (\<lambda>x. truthy (isAvailable x)) (sort_key slotNumber (slots e))"
    and "\<exists>y \<in> set (slots (toggleEntry d n (toggleEntry d n e))).
           slotNumber y = n \<and> isAvailable y = Some False"
proof -
  let ?p = "\<lambda>s::Slot. slotNumber s = n"
  define new :: Slot where "new = \<lparr>slotNumber = slotNumber c, startTime = startTime c,
                               endTime = endTime c, isAvailable = Some True\<rparr>"
  define ys where "ys = sort_key slotNumber (slots e @ [new])"
  define k where "k = nat (findIndex ?p ys)"
  define z where "z = new\<lparr>isAvailable := Some False\<rparr>"
  from assms(3) have cn: "slotNumber c = n"
    by (auto simp: getSlotByNumber_def find_Some_iff)
  then have pn: "slotNumber new = n"
    by (simp add: new_def)
  have e1: "toggleEntry d n e = e\<lparr>slots := ys\<rparr>"
    using assms by (simp add: toggleEntry_insert ys_def new_def)
  have "new \<in> set ys"
    by (simp add: ys_def)
  then have ge: "findIndex ?p ys \<ge> 0"
    using pn by (rule findIndex_found)
  then have k: "k < length ys" and pk: "slotNumber (ys ! k) = n"
    using findIndex_present [of ?p ys] by (simp_all add: k_def)
  from k have "ys ! k \<in> set ys"
    by simp
  with pk assms(2) have yk: "ys ! k = new"
    by (auto simp: ys_def)
  have "toggleEntry d n (e\<lparr>slots := ys\<rparr>)
          = (e\<lparr>slots := ys\<rparr>)\<lparr>slots := (slots (e\<lparr>slots := ys\<rparr>))[k :=
               (slots (e\<lparr>slots := ys\<rparr>) ! k)\<lparr>isAvailable :=
                  Some (\<not> truthy (isAvailable (slots (e\<lparr>slots := ys\<rparr>) ! k)))\<rparr>]\<rparr>"
    using assms(1) ge by (intro toggleEntry_found) (simp_all add: k_def)
  then have e2: "slots (toggleEntry d n (toggleEntry d n e)) = ys[k := z]"
    by (simp add: e1 yk z_def new_def truthy_def)
  have fp: "filter ?p ys = [new]"
    using assms(2) pn by (simp add: ys_def filter_sort filter_empty_conv)
  have fn: "filter (\<lambda>x. \<not> ?p x) ys = sort_key slotNumber (slots e)"
    using assms(2) pn by (simp add: ys_def filter_sort filter_id_conv)
  have "\<not> truthy (isAvailable z)"
    by (simp add: z_def truthy_def)
  then have "filter (\<lambda>x. truthy (isAvailable x)) (ys[nat (findIndex ?p ys) := z])
          = filter (\<lambda>x. truthy (isAvailable x)) (filter (\<lambda>x. \<not> ?p x) ys)"
    using ge fp by (intro filter_update_unique) simp_all
  then show "filter (\<lambda>x. truthy (isAvailable x)) (slots (toggleEntry d n (toggleEntry d n e)))
         = filter (\<lambda>x. truthy (isAvailable x)) (sort_key slotNumber (slots e))"
    by (simp add: e2 fn k_def)
  have "z \<in> set (ys[k := z])"
    using k by (rule set_update_memI)
  moreover have "slotNumber z = n \<and> isAvailable z = Some False"
    using pn by (simp add: z_def)
  ultimately show "\<exists>y \<in> set (slots (toggleEntry d n (toggleEntry d n e))).
           slotNumber y = n \<and> isAvailable y = Some False"
    unfolding e2 by blast
qed

lemma find_toggle:
  "find (\<lambda>x. day x = d') (map (toggleEntry d n) S)
     = map_option (toggleEntry d n) (find (\<lambda>x. day x = d') S)"
  by (induction S) (simp_all add: day_toggleEntry)

lemma toggle_twice_state:
  "toggleSlotAvailability (toggleSlotAvailability (Some fd) d n) d n
     = Some (fd\<lparr>schedule := map (\<lambda>e. toggleEntry d n (toggleEntry d n e)) (schedule fd)\<rparr>)"
  by (simp add: toggleSlotAvailability_def updatedSchedule_def comp_def)

lemma find_toggle_twice:
  "find (\<lambda>x. day x = d') (map (\<lambda>e. toggleEntry d n (toggleEntry d n e)) S)
     = map_option (\<lambda>e. toggleEntry d n (toggleEntry d n e)) (find (\<lambda>x. day x = d') S)"
  by (induction S) (simp_all add: day_toggleEntry)

text \<open>
  C10, as stated, fails: the insertion sorts the whole day. On an initialised schedule
  whose Monday holds the available slots 5 and 3 in that order, toggling the catalog
  slot 1 twice on Monday changes the selected sequence of Monday from 5, 3 to 3, 5.
\<close>

theorem double_toggle_counterexample:
  "getSlotByNumber 1 \<noteq> None
   \<and> schedule (initialFormData\<lparr>schedule := initializeSchedule [\<lparr>day = Monday, slots =
          [\<lparr>slotNumber = 5, startTime = ''10:00'', endTime = ''10:15'', isAvailable = Some True\<rparr>,
           \<lparr>slotNumber = 3, startTime = ''09:30'', endTime = ''09:45'', isAvailable = Some True\<rparr>]\<rparr>]\<rparr>)
       = initializeSchedule [\<lparr>day = Monday, slots =
          [\<lparr>slotNumber = 5, startTime = ''10:00'', endTime = ''10:15'', isAvailable = Some True\<rparr>,
           \<lparr>slotNumber = 3, startTime = ''09:30'', endTime = ''09:45'', isAvailable = Some True\<rparr>]\<rparr>]
   \<and> getSelectedSlotsForDay
         (Some (initialFormData\<lparr>schedule := initializeSchedule [\<lparr>day = Monday, slots =
          [\<lparr>slotNumber = 5, startTime = ''10:00'', endTime = ''10:15'', isAvailable = Some True\<rparr>,
           \<lparr>slotNumber = 3, startTime = ''09:30'', endTime = ''09:45'', isAvailable = Some True\<rparr>]\<rparr>]\<rparr>))
         Monday = [5, 3]
   \<and> getSelectedSlotsForDay
         (toggleSlotAvailability (toggleSlotAvailability
           (Some (initialFormData\<lparr>schedule := initializeSchedule [\<lparr>day = Monday, slots =
          [\<lparr>slotNumber = 5, startTime = ''10:00'', endTime = ''10:15'', isAvailable = Some True\<rparr>,
           \<lparr>slotNumber = 3, startTime = ''09:30'', endTime = ''09:45'', isAvailable = Some True\<rparr>]\<rparr>]\<rparr>))
           Monday 1) Monday 1)
         Monday = [3, 5]"
proof -
  have "getSlotByNumber 1 \<noteq> None"
    by (simp add: getSlotByNumber_eq)
  moreover have "getSelectedSlotsForDay
         (Some (initialFormData\<lparr>schedule := initializeSchedule [\<lparr>day = Monday, slots =
          [\<lparr>slotNumber = 5, startTime = ''10:00'', endTime = ''10:15'', isAvailable = Some True\<rparr>,
           \<lparr>slotNumber = 3, startTime = ''09:30'', endTime = ''09:45'', isAvailable = Some True\<rparr>]\<rparr>]\<rparr>))
         Monday = [5, 3]"
    by code_simp
  moreover have "getSelectedSlotsForDay
         (toggleSlotAvailability (toggleSlotAvailability
           (Some (initialFormData\<lparr>schedule := initializeSchedule [\<lparr>day = Monday, slots =
          [\<lparr>slotNumber = 5, startTime = ''10:00'', endTime = ''10:15'', isAvailable = Some True\<rparr>,
           \<lparr>slotNumber = 3, startTime = ''09:30'', endTime = ''09:45'', isAvailable = Some True\<rparr>]\<rparr>]\<rparr>))
           Monday 1) Monday 1)
         Monday = [3, 5]"
    by code_simp
  ultimately show ?thesis
    by simp
qed

text \<open>
  C10, amended. On an initialised schedule, toggling a catalog slot \<open>n\<close> twice on weekday
  \<open>d\<close> leaves the selected sequence of every other weekday unchanged. The sequence of
  \<open>d\<close> itself is unchanged when slot \<open>n\<close> was already in the day's slots or when the
  day's slots were in ascending order of slot number. When slot \<open>n\<close> was absent, the
  sequence of \<open>d\<close> is the one read off the day's slots after a stable ascending sort by
  slot number, and slot \<open>n\<close> stays in the day's slots with \<open>isAvailable\<close> false. In
  every case the sequence of \<open>d\<close> holds the same numbers as before.
\<close>

theorem double_toggle_selected:
  assumes "schedule fd = initializeSchedule s" and "getSlotByNumber n \<noteq> None"
  shows "\<exists>e. find (\<lambda>x. day x = d) (schedule fd) = Some e
     \<and> (\<forall>d'. d' \<noteq> d \<longrightarrow>
           getSelectedSlotsForDay
             (toggleSlotAvailability (toggleSlotAvailability (Some fd) d n) d n) d'
           = getSelectedSlotsForDay (Some fd) d')
     \<and> ((\<exists>x \<in> set (slots e). slotNumber x = n) \<or> sorted (map slotNumber (slots e)) \<longrightarrow>
           getSelectedSlotsForDay
             (toggleSlotAvailability (toggleSlotAvailability (Some fd) d n) d n) d
           = getSelectedSlotsForDay (Some fd) d)
     \<and> ((\<forall>x \<in> set (slots e). slotNumber x \<noteq> n) \<longrightarrow>
           getSelectedSlotsForDay
             (toggleSlotAvailability (toggleSlotAvailability (Some fd) d n) d n) d
           = map slotNumber (filter (\<lambda>x. truthy (isAvailable x)) (sort_key slotNumber (slots e)))
           \<and> (\<exists>fd' e'. toggleSlotAvailability (toggleSlotAvailability (Some fd) d n) d n = Some fd'
                 \<and> find (\<lambda>x. day x = d) (schedule fd') = Some e'
                 \<and> (\<exists>y \<in> set (slots e'). slotNumber y = n \<and> isAvailable y = Some False)))
     \<and> mset (getSelectedSlotsForDay
               (toggleSlotAvailability (toggleSlotAvailability (Some fd) d n) d n) d)
         = mset (getSelectedSlotsForDay (Some fd) d)"
proof -
  let ?tt = "\<lambda>e. toggleEntry d n (toggleEntry d n e)"
  let ?avail = "\<lambda>x::Slot. truthy (isAvailable x)"
  define fd' where "fd' = fd\<lparr>schedule := map ?tt (schedule fd)\<rparr>"
  define e where "e = initializeDay s d"
  from assms(2) obtain c where c: "getSlotByNumber n = Some c"
    by blast
  have twice: "toggleSlotAvailability (toggleSlotAvailability (Some fd) d n) d n = Some fd'"
    by (simp add: toggle_twice_state fd'_def)
  have fe: "find (\<lambda>x. day x = d) (schedule fd) = Some e"
    by (simp add: assms(1) find_initializeSchedule e_def)
  have de: "day e = d"
    by (simp add: e_def day_initializeDay)
  have before: "getSelectedSlotsForDay (Some fd) d = map slotNumber (filter ?avail (slots e))"
    by (simp add: getSelectedSlotsForDay_def fe)
  have after: "getSelectedSlotsForDay (Some fd') d = map slotNumber (filter ?avail (slots (?tt e)))"
    by (simp add: getSelectedSlotsForDay_def fd'_def find_toggle_twice fe)
  have other: "getSelectedSlotsForDay (Some fd') d' = getSelectedSlotsForDay (Some fd) d'"
    if "d' \<noteq> d" for d'
  proof -
    have "find (\<lambda>x. day x = d') (schedule fd) = Some (initializeDay s d')"
      by (simp add: assms(1) find_initializeSchedule)
    moreover have "?tt (initializeDay s d') = initializeDay s d'"
      using that by (simp add: toggleEntry_other day_initializeDay)
    ultimately show ?thesis
      by (simp add: getSelectedSlotsForDay_def fd'_def find_toggle_twice)
  qed
  have present: "getSelectedSlotsForDay (Some fd') d = getSelectedSlotsForDay (Some fd) d"
    if "\<exists>x \<in> set (slots e). slotNumber x = n"
  proof -
    from that obtain x where "x \<in> set (slots e)" "slotNumber x = n"
      by blast
    with de show ?thesis
      unfolding before after by (rule toggle_twice_present)
  qed
  have absent: "getSelectedSlotsForDay (Some fd') d
                  = map slotNumber (filter ?avail (sort_key slotNumber (slots e)))"
    and stays: "\<exists>e'. find (\<lambda>x. day x = d) (schedule fd') = Some e'
                 \<and> (\<exists>y \<in> set (slots e'). slotNumber y = n \<and> isAvailable y = Some False)"
    if h: "\<forall>x \<in> set (slots e). slotNumber x \<noteq> n"
  proof -
    show "getSelectedSlotsForDay (Some fd') d
                  = map slotNumber (filter ?avail (sort_key slotNumber (slots e)))"
      unfolding after using toggle_twice_absent(1) [OF de h c] by (simp only:)
    have "find (\<lambda>x. day x = d) (schedule fd') = Some (?tt e)"
      by (simp add: fd'_def find_toggle_twice fe)
    with toggle_twice_absent(2) [OF de h c] show "\<exists>e'. find (\<lambda>x. day x = d) (schedule fd') = Some e'
                 \<and> (\<exists>y \<in> set (slots e'). slotNumber y = n \<and> isAvailable y = Some False)"
      by blast
  qed
  have sorted_case: "getSelectedSlotsForDay (Some fd') d = getSelectedSlotsForDay (Some fd) d"
    if "sorted (map slotNumber (slots e))"
  proof (cases "\<exists>x \<in> set (slots e). slotNumber x = n")
    case True
    then show ?thesis by (rule present)
  next
    case False
    then have "getSelectedSlotsForDay (Some fd') d
                  = map slotNumber (filter ?avail (sort_key slotNumber (slots e)))"
      by (intro absent) blast
    also have "sort_key slotNumber (slots e) = slots e"
      using that by (rule sort_key_id_if_sorted)
    finally show ?thesis
      by (simp only: before)
  qed
  have perm: "mset (getSelectedSlotsForDay (Some fd') d) = mset (getSelectedSlotsForDay (Some fd) d)"
  proof (cases "\<exists>x \<in> set (slots e). slotNumber x = n")
    case True
    then show ?thesis by (simp only: present)
  next
    case False
    then have "getSelectedSlotsForDay (Some fd') d
                  = map slotNumber (filter ?avail (sort_key slotNumber (slots e)))"
      by (intro absent) blast
    then show ?thesis
      by (simp add: before filter_sort)
  qed
  show ?thesis
    unfolding twice
  proof (intro exI conjI)
    show "find (\<lambda>x. day x = d) (schedule fd) = Some e"
      by (rule fe)
    show "\<forall>d'. d' \<noteq> d \<longrightarrow>
           getSelectedSlotsForDay (Some fd') d' = getSelectedSlotsForDay (Some fd) d'"
      using other by blast
    show "(\<exists>x \<in> set (slots e). slotNumber x = n) \<or> sorted (map slotNumber (slots e)) \<longrightarrow>
           getSelectedSlotsForDay (Some fd') d = getSelectedSlotsForDay (Some fd) d"
      using present sorted_case by blast
    show "(\<forall>x \<in> set (slots e). slotNumber x \<noteq> n) \<longrightarrow>
           getSelectedSlotsForDay (Some fd') d
           = map slotNumber (filter (\<lambda>x. truthy (isAvailable x)) (sort_key slotNumber (slots e)))
           \<and> (\<exists>fd'' e'. Some fd' = Some fd''
                 \<and> find (\<lambda>x. day x = d) (schedule fd'') = Some e'
                 \<and> (\<exists>y \<in> set (slots e'). slotNumber y = n \<and> isAvailable y = Some False))"
      using absent stays by blast
    show "mset (getSelectedSlotsForDay (Some fd') d) = mset (getSelectedSlotsForDay (Some fd) d)"
      by (rule perm)
  qed
qed

theorem double_toggle_selected_witness:
  "schedule (initialFormData\<lparr>schedule := initializeSchedule [\<lparr>day = Monday, slots =
          [\<lparr>slotNumber = 3, startTime = ''09:30'', endTime = ''09:45'', isAvailable = Some True\<rparr>,
           \<lparr>slotNumber = 5, startTime = ''10:00'', endTime = ''10:15'', isAvailable = None\<rparr>]\<rparr>]\<rparr>)
     = initializeSchedule [\<lparr>day = Monday, slots =
          [\<lparr>slotNumber = 3, startTime = ''09:30'', endTime = ''09:45'', isAvailable = Some True\<rparr>,
           \<lparr>slotNumber = 5, startTime = ''10:00'', endTime = ''10:15'', isAvailable = None\<rparr>]\<rparr>]
   \<and> getSlotByNumber 1 \<noteq> None
   \<and> Tuesday \<noteq> Monday
   \<and> getSelectedSlotsForDay
         (toggleSlotAvailability (toggleSlotAvailability
           (Some (initialFormData\<lparr>schedule := initializeSchedule [\<lparr>day = Monday, slots =
          [\<lparr>slotNumber = 3, startTime = ''09:30'', endTime = ''09:45'', isAvailable = Some True\<rparr>,
           \<lparr>slotNumber = 5, startTime = ''10:00'', endTime = ''10:15'', isAvailable = None\<rparr>]\<rparr>]\<rparr>))
           Monday 1) Monday 1)
         Tuesday = []
   \<and> getSelectedSlotsForDay
         (toggleSlotAvailability (toggleSlotAvailability
           (Some (initialFormData\<lparr>schedule := initializeSchedule [\<lparr>day = Monday, slots =
          [\<lparr>slotNumber = 3, startTime = ''09:30'', endTime = ''09:45'', isAvailable = Some True\<rparr>,
           \<lparr>slotNumber = 5, startTime = ''10:00'', endTime = ''10:15'', isAvailable = None\<rparr>]\<rparr>]\<rparr>))
           Monday 1) Monday 1)
         Monday = [3, 5]"
proof -
  define s where "s = [\<lparr>day = Monday, slots =
          [\<lparr>slotNumber = 3, startTime = ''09:30'', endTime = ''09:45'', isAvailable = Some True\<rparr>,
           \<lparr>slotNumber = 5, startTime = ''10:00'', endTime = ''10:15'', isAvailable = None\<rparr>]\<rparr>]"
  define fd where "fd = initialFormData\<lparr>schedule := initializeSchedule s\<rparr>"
  define m :: Schedule where "m = \<lparr>day = Monday, slots =
          [\<lparr>slotNumber = 3, startTime = ''09:30'', endTime = ''09:45'', isAvailable = Some True\<rparr>,
           \<lparr>slotNumber = 5, startTime = ''10:00'', endTime = ''10:15'', isAvailable = Some True\<rparr>]\<rparr>"
  have init: "schedule fd = initializeSchedule s"
    by (simp add: fd_def)
  have cat: "getSlotByNumber 1 \<noteq> None"
    by (simp add: getSlotByNumber_eq)
  have ne: "Tuesday \<noteq> Monday"
    by simp
  have fm: "find (\<lambda>x. day x = Monday) (schedule fd) = Some m"
    by (simp add: init find_initializeSchedule initializeDay_def s_def m_def defaultSlot_def orTrue_def)
  have srt: "sorted (map slotNumber (slots m))" and abs: "\<forall>x \<in> set (slots m). slotNumber x \<noteq> 1"
    by (simp_all add: m_def)
  have mon: "getSelectedSlotsForDay (Some fd) Monday = [3, 5]"
    by (simp add: getSelectedSlotsForDay_def fm) (simp add: m_def truthy_def)
  have tue: "getSelectedSlotsForDay (Some fd) Tuesday = []"
    by (simp add: getSelectedSlotsForDay_def init find_initializeSchedule initializeDay_def s_def)
  from double_toggle_selected [OF init cat, of Monday] obtain e
    where e: "find (\<lambda>x. day x = Monday) (schedule fd) = Some e"
      and other: "\<forall>d'. d' \<noteq> Monday \<longrightarrow>
           getSelectedSlotsForDay
             (toggleSlotAvailability (toggleSlotAvailability (Some fd) Monday 1) Monday 1) d'
           = getSelectedSlotsForDay (Some fd) d'"
      and same: "(\<exists>x \<in> set (slots e). slotNumber x = 1) \<or> sorted (map slotNumber (slots e)) \<longrightarrow>
           getSelectedSlotsForDay
             (toggleSlotAvailability (toggleSlotAvailability (Some fd) Monday 1) Monday 1) Monday
           = getSelectedSlotsForDay (Some fd) Monday"
      and ins: "(\<forall>x \<in> set (slots e). slotNumber x \<noteq> 1) \<longrightarrow>
           getSelectedSlotsForDay
             (toggleSlotAvailability (toggleSlotAvailability (Some fd) Monday 1) Monday 1) Monday
           = map slotNumber (filter (\<lambda>x. truthy (isAvailable x)) (sort_key slotNumber (slots e)))"
    by blast
  from e fm have em: "e = m"
    by simp
  from other ne tue have t: "getSelectedSlotsForDay
             (toggleSlotAvailability (toggleSlotAvailability (Some fd) Monday 1) Monday 1) Tuesday = []"
    by simp
  from same srt mon have a: "getSelectedSlotsForDay
             (toggleSlotAvailability (toggleSlotAvailability (Some fd) Monday 1) Monday 1) Monday = [3, 5]"
    unfolding em by simp
  from ins abs have "getSelectedSlotsForDay
             (toggleSlotAvailability (toggleSlotAvailability (Some fd) Monday 1) Monday 1) Monday
           = map slotNumber (filter (\<lambda>x. truthy (isAvailable x)) (sort_key slotNumber (slots m)))"
    unfolding em by blast
  from init cat ne t a show ?thesis
    unfolding fd_def s_def by blast
qed

end
